theory Spec2Isabelle
  imports Main
begin

section \<open>SymSpell: the Symmetric Delete spelling correction engine (symspell.js)\<close>

text \<open>
  A shallow embedding of \<^verbatim>\<open>src/symspell.js\<close>.

  Conventions of the embedding.
  \<^item> JavaScript numbers that the program stores in its objects (distances, counts, the
    maximum edit distance) are integers (\<open>int\<close>); array indices and string lengths are
    \<open>nat\<close>, converted with \<open>int\<close> where the program stores them.
  \<^item> A JavaScript string is a \<open>string\<close>, one \<open>char\<close> for each code unit; the empty string
    is the only falsy one.
  \<^item> The objects \<^verbatim>\<open>Word\<close>, \<^verbatim>\<open>EditItem\<close>, \<^verbatim>\<open>SuggestItem\<close>, \<^verbatim>\<open>DictionaryItem\<close> are
    records. \<^verbatim>\<open>Word.prototype.equals\<close> compares the \<^verbatim>\<open>term\<close> fields only, so it is defined
    on every extension of \<open>Word\<close>.
  \<^item> The dictionary object \<^verbatim>\<open>this.dictionary = {}\<close> is the map of its own properties,
    \<open>string \<rightharpoonup> DictionaryItem\<close>. Every stored value is an object, hence truthy, so the
    test \<^verbatim>\<open>if (this.dictionary[key])\<close> is \<open>dictionary this key \<noteq> None\<close> for a key whose read
    finds an own property or nothing. A JavaScript read \<^verbatim>\<open>this.dictionary[key]\<close> also finds
    the members that \<^verbatim>\<open>{}\<close> inherits from \<^verbatim>\<open>Object.prototype\<close>: \<open>read_dictionary\<close> below is
    that read, and \<open>read_dictionary_own\<close> gives the languages for which every read of
    \<^verbatim>\<open>addWord\<close> and \<^verbatim>\<open>lookup\<close> finds an own property or nothing. For a key that names an
    inherited member (\<^verbatim>\<open>constructor\<close>, \<^verbatim>\<open>valueOf\<close>, ...) the code takes the branch of an
    existing entry, on an object without the fields \<^verbatim>\<open>term\<close>, \<^verbatim>\<open>count\<close> and \<^verbatim>\<open>suggestions\<close>:
    these runs (the four reads of \<^verbatim>\<open>addWord\<close> and \<^verbatim>\<open>lookup\<close>) are not part of the model of
    \<^verbatim>\<open>addWord\<close> and \<^verbatim>\<open>lookup\<close>.
  \<^item> Object identity matters in one place, \<^verbatim>\<open>Array.prototype.indexOf\<close> in
    \<^verbatim>\<open>computePermutations\<close>; there an object is a pair of its address and its value.
\<close>

subsection \<open>Data model\<close>

record Word =
  "term" :: string

record EditItem = Word +
  distance :: int

record DictionaryItem = Word +
  suggestions :: "EditItem list"
  count :: int

text \<open>
  A \<^verbatim>\<open>SuggestItem\<close> has the fields \<^verbatim>\<open>term\<close>, \<^verbatim>\<open>distance\<close> and \<^verbatim>\<open>count\<close>. Below, \<open>count\<close>
  alone is the field of a \<open>SuggestItem\<close>; the field of a dictionary entry is written
  \<open>DictionaryItem.count\<close>.
\<close>

record SuggestItem = EditItem +
  count :: int

text \<open>\<^verbatim>\<open>SymSpell.Modes\<close>: the three values \<^verbatim>\<open>TOP\<close>, \<^verbatim>\<open>SMALLEST\<close>, \<^verbatim>\<open>ALL\<close>.\<close>

datatype Modes = Modes_TOP | Modes_SMALLEST | Modes_ALL

record SymSpell =
  maxEditDistance :: int
  mode :: Modes
  dictionary :: "string \<rightharpoonup> DictionaryItem"

text \<open>
  \<^verbatim>\<open>new SymSpell(maxEditDistance, mode)\<close>: both arguments are optional;
  \<^verbatim>\<open>maxEditDistance || 2\<close> also replaces 0 by 2.
\<close>

definition new_SymSpell :: "int option \<Rightarrow> Modes option \<Rightarrow> SymSpell" where
  "new_SymSpell maxEditDistance' mode' =
     \<lparr>maxEditDistance = (case maxEditDistance' of None \<Rightarrow> 2 | Some n \<Rightarrow> if n = 0 then 2 else n),
      mode = (case mode' of None \<Rightarrow> Modes_ALL | Some m \<Rightarrow> m),
      dictionary = Map.empty\<rparr>"

text \<open>\<^verbatim>\<open>new DictionaryItem()\<close>.\<close>

definition new_DictionaryItem :: DictionaryItem where
  "new_DictionaryItem = \<lparr>term = [], suggestions = [], DictionaryItem.count = 0\<rparr>"

text \<open>
  The read \<^verbatim>\<open>this.dictionary[key]\<close>. The object \<^verbatim>\<open>{}\<close> inherits the members of
  \<^verbatim>\<open>Object.prototype\<close> (ECMAScript, with the accessors of its annex B); each of them is a
  function or an object, hence truthy, and none has a field \<^verbatim>\<open>term\<close>, \<^verbatim>\<open>count\<close> or
  \<^verbatim>\<open>suggestions\<close>. An own property shadows an inherited one.
\<close>

definition Object_prototype_members :: "string list" where
  "Object_prototype_members =
     [''constructor'', ''hasOwnProperty'', ''isPrototypeOf'', ''propertyIsEnumerable'',
      ''toLocaleString'', ''toString'', ''valueOf'', ''__proto__'', ''__defineGetter__'',
      ''__defineSetter__'', ''__lookupGetter__'', ''__lookupSetter__'']"

datatype property = Undefined | Own DictionaryItem | Inherited

definition read_dictionary :: "SymSpell \<Rightarrow> string \<Rightarrow> property" where
  "read_dictionary this key =
     (case dictionary this key of
        Some item \<Rightarrow> Own item
      | None \<Rightarrow> if key \<in> set Object_prototype_members then Inherited else Undefined)"

subsection \<open>The variant generator\<close>

type_synonym ref = nat

text \<open>
  \<^verbatim>\<open>array.indexOf(p)\<close> on an array of objects: strict equality of objects is equality of
  addresses. The result is the first index holding the object, or \<open>-1\<close>.
\<close>

fun indexOf :: "(ref \<times> 'a) list \<Rightarrow> ref \<times> 'a \<Rightarrow> int" where
  "indexOf [] p = - 1"
| "indexOf (q # qs) p =
     (if fst q = fst p then 0
      else (let r = indexOf qs p in if r = - 1 then - 1 else r + 1))"

text \<open>
  The body of the inner loop of \<^verbatim>\<open>computePermutations\<close>:
  \<^verbatim>\<open>if (permutations.indexOf(nextPermutations[j]) === -1) permutations.push(nextPermutations[j])\<close>.
\<close>

definition push_if_absent :: "(ref \<times> EditItem) list \<Rightarrow> ref \<times> EditItem \<Rightarrow> (ref \<times> EditItem) list" where
  "push_if_absent permutations q =
     (if indexOf permutations q = - 1 then permutations @ [q] else permutations)"

text \<open>
  \<^verbatim>\<open>computePermutations(word, editDistance, maxEditDistance)\<close>. The first argument of the
  model is the next unused address: every \<^verbatim>\<open>new EditItem()\<close> takes it and increments it,
  and the function returns the array together with the next unused address. The callers
  always pass a number for \<^verbatim>\<open>editDistance\<close>, so \<^verbatim>\<open>(editDistance || 0) + 1\<close> is
  \<open>editDistance + 1\<close>; an absent \<^verbatim>\<open>maxEditDistance\<close> is \<open>None\<close>.
\<close>

function computePermutations_at ::
  "ref \<Rightarrow> string \<Rightarrow> int \<Rightarrow> int option \<Rightarrow> (ref \<times> EditItem) list \<times> ref" where
  "computePermutations_at free word editDistance0 maxEditDistance' =
     (let editDistance = editDistance0 + 1; l = length word in
      if l > 1 then
        fold (\<lambda>i (permutations, free).
                let p = (free, \<lparr>term = take i word @ drop (i + 1) word, distance = editDistance\<rparr>);
                    free = free + 1
                in if indexOf permutations p = - 1 then
                     (let permutations = permutations @ [p] in
                      if (case maxEditDistance' of None \<Rightarrow> False | Some m \<Rightarrow> editDistance < m) then
                        (let (nextPermutations, free) =
                               computePermutations_at free (term (snd p)) editDistance maxEditDistance'
                         in (fold (\<lambda>q permutations. push_if_absent permutations q)
                               nextPermutations permutations, free))
                      else (permutations, free))
                   else (permutations, free))
             [0..<l] ([], free)
      else ([], free))"
  by pat_completeness auto
termination
  by (relation "measure (\<lambda>(free, word, editDistance0, maxEditDistance'). length word)") auto

definition computePermutations :: "string \<Rightarrow> int \<Rightarrow> int option \<Rightarrow> EditItem list" where
  "computePermutations word editDistance maxEditDistance' =
     map snd (fst (computePermutations_at 0 word editDistance maxEditDistance'))"

subsection \<open>The insertion pipeline\<close>

text \<open>\<^verbatim>\<open>Word.prototype.equals\<close>: both objects have a \<^verbatim>\<open>term\<close>, which is compared.\<close>

definition equals :: "'a Word_scheme \<Rightarrow> 'b Word_scheme \<Rightarrow> bool" where
  "equals this obj \<longleftrightarrow> term obj = term this"

fun wordListContains :: "'a Word_scheme list \<Rightarrow> 'b Word_scheme \<Rightarrow> bool" where
  "wordListContains [] value' = False"
| "wordListContains (x # xs) value' = (if equals x value' then True else wordListContains xs value')"

text \<open>
  \<^verbatim>\<open>addOrTerminateEarly(suggestions, suggestion, mode)\<close> changes the array in place; the
  model returns the new contents.
\<close>

definition addOrTerminateEarly :: "EditItem list \<Rightarrow> EditItem \<Rightarrow> Modes \<Rightarrow> EditItem list" where
  "addOrTerminateEarly suggestions' suggestion mode' =
     (let suggestions1 =
            (if mode' \<noteq> Modes_ALL \<and> suggestions' \<noteq> [] \<and> distance (hd suggestions') > distance suggestion
             then [] else suggestions')
      in if mode' = Modes_ALL \<or> suggestions1 = [] \<or> distance (hd suggestions1) \<ge> distance suggestion
         then suggestions1 @ [suggestion] else suggestions1)"

text \<open>
  The body of the loop of \<^verbatim>\<open>addWord\<close> over \<^verbatim>\<open>possibleSuggestions\<close>, for the element
  \<^verbatim>\<open>ps\<close>.
\<close>

definition addWord_suggestion :: "string \<Rightarrow> string \<Rightarrow> EditItem \<Rightarrow> SymSpell \<Rightarrow> SymSpell" where
  "addWord_suggestion word language ps this =
     (let suggestion = \<lparr>term = word, distance = distance ps\<rparr> in
      case dictionary this (language @ term ps) of
        Some entry \<Rightarrow>
          if \<not> wordListContains (suggestions entry) suggestion then
            this\<lparr>dictionary := (dictionary this)(language @ term ps \<mapsto>
              entry\<lparr>suggestions := addOrTerminateEarly (suggestions entry) suggestion (mode this)\<rparr>)\<rparr>
          else this
      | None \<Rightarrow>
          this\<lparr>dictionary := (dictionary this)(language @ term ps \<mapsto>
            new_DictionaryItem\<lparr>suggestions := [suggestion]\<rparr>)\<rparr>)"

text \<open>
  \<^verbatim>\<open>item.count++\<close>, the last statement of \<^verbatim>\<open>addWord\<close>: \<^verbatim>\<open>item\<close> is the object stored under
  \<^verbatim>\<open>key\<close> (in both branches), and no statement replaces the object stored under a key
  that is present.
\<close>

definition increment_count :: "string \<Rightarrow> SymSpell \<Rightarrow> SymSpell" where
  "increment_count key this =
     (case dictionary this key of
        Some item \<Rightarrow>
          this\<lparr>dictionary := (dictionary this)(key \<mapsto>
            item\<lparr>DictionaryItem.count := DictionaryItem.count item + 1\<rparr>)\<rparr>
      | None \<Rightarrow> this)"

text \<open>\<^verbatim>\<open>SymSpell.prototype.addWord(word, language)\<close>, with the language given.\<close>

definition addWord :: "SymSpell \<Rightarrow> string \<Rightarrow> string \<Rightarrow> SymSpell" where
  "addWord this word language =
     (let key = language @ word in
      case dictionary this key of
        Some item \<Rightarrow> increment_count key this
      | None \<Rightarrow>
          (let item = new_DictionaryItem\<lparr>term := word\<rparr>;
               this = this\<lparr>dictionary := (dictionary this)(key \<mapsto> item)\<rparr>;
               possibleSuggestions = computePermutations word 0 (Some (maxEditDistance this))
           in increment_count key (fold (addWord_suggestion word language) possibleSuggestions this)))"

text \<open>
  \<^verbatim>\<open>SymSpell.prototype.addWords(corpus, language, tokenizer)\<close>. The tokenizer is given (the
  default one, a regular expression, is not modelled); \<^verbatim>\<open>language || 'und'\<close> replaces the
  empty string.
\<close>

definition addWords :: "SymSpell \<Rightarrow> string \<Rightarrow> string \<Rightarrow> (string \<Rightarrow> string list) \<Rightarrow> SymSpell" where
  "addWords this corpus language tokenizer =
     (let language = (if language = [] then ''und'' else language);
          words = tokenizer corpus
      in fold (\<lambda>w this. addWord this w language) words this)"

subsection \<open>The distance verifier\<close>

text \<open>
  \<^verbatim>\<open>distance(source, target)\<close>. The table \<^verbatim>\<open>score\<close> is a function of the pair of the row and the column;
  \<^verbatim>\<open>sd\<close> is a map from characters to row numbers. The first argument of \<open>distance_table\<close>
  is the content of the table before the first assignment.

  The two loops that fill the borders: for \<open>i = m\<close> the statement \<^verbatim>\<open>sd[source[i]] = 0\<close> writes
  the key \<^verbatim>\<open>undefined\<close>, which is no character and is never read; the same for \<open>j = n\<close>.
\<close>

type_synonym score_table = "nat \<times> nat \<Rightarrow> int"

definition set_cell :: "score_table \<Rightarrow> nat \<Rightarrow> nat \<Rightarrow> int \<Rightarrow> score_table" where
  "set_cell score i j v = score((i, j) := v)"

definition distance_init_rows :: "string \<Rightarrow> int \<Rightarrow> score_table \<times> (char \<rightharpoonup> nat) \<Rightarrow> score_table \<times> (char \<rightharpoonup> nat)" where
  "distance_init_rows source INF' =
     fold (\<lambda>i (score, sd).
             let score = set_cell score (i + 1) 1 (int i);
                 score = set_cell score (i + 1) 0 INF'
             in (score, if i < length source then sd(source ! i \<mapsto> 0) else sd))
       [0..<length source + 1]"

definition distance_init_cols :: "string \<Rightarrow> int \<Rightarrow> score_table \<times> (char \<rightharpoonup> nat) \<Rightarrow> score_table \<times> (char \<rightharpoonup> nat)" where
  "distance_init_cols target INF' =
     fold (\<lambda>j (score, sd).
             let score = set_cell score 1 (j + 1) (int j);
                 score = set_cell score 0 (j + 1) INF'
             in (score, if j < length target then sd(target ! j \<mapsto> 0) else sd))
       [0..<length target + 1]"

text \<open>
  The body of the inner loop, for the row \<open>i\<close> and the column \<open>j\<close>; its state is the table
  and \<^verbatim>\<open>DB\<close>. In \<^verbatim>\<open>score[i1] ? ... : Infinity\<close> the row \<^verbatim>\<open>score[i1]\<close> is an array when \<open>i1\<close>
  is an index of the table, and \<^verbatim>\<open>Math.min(x, Infinity)\<close> is \<open>x\<close>.
\<close>

definition distance_cell :: "string \<Rightarrow> string \<Rightarrow> (char \<rightharpoonup> nat) \<Rightarrow> nat \<Rightarrow> nat \<Rightarrow> score_table \<times> nat \<Rightarrow> score_table \<times> nat" where
  "distance_cell source target sd i j = (\<lambda>(score, DB).
     let i1 = sd (target ! (j - 1));
         j1 = DB;
         (score, DB) =
           (if source ! (i - 1) = target ! (j - 1)
            then (set_cell score (i + 1) (j + 1) (score (i, j)), j)
            else (set_cell score (i + 1) (j + 1)
                    (min (score (i, j)) (min (score (i + 1, j)) (score (i, j + 1))) + 1), DB));
         score = set_cell score (i + 1) (j + 1)
                   (case i1 of
                      Some i1 \<Rightarrow>
                        if i1 < length source + 2
                        then min (score (i + 1, j + 1))
                               (score (i1, j1) + (int i - int i1 - 1) + 1 + (int j - int j1 - 1))
                        else score (i + 1, j + 1)
                    | None \<Rightarrow> score (i + 1, j + 1))
     in (score, DB))"

text \<open>The body of the outer loop, for the row \<open>i\<close>; its state is the table and \<^verbatim>\<open>sd\<close>.\<close>

definition distance_row :: "string \<Rightarrow> string \<Rightarrow> nat \<Rightarrow> score_table \<times> (char \<rightharpoonup> nat) \<Rightarrow> score_table \<times> (char \<rightharpoonup> nat)" where
  "distance_row source target i = (\<lambda>(score, sd).
     let (score, DB) = fold (distance_cell source target sd i) [1..<length target + 1] (score, 0)
     in (score, sd(source ! (i - 1) \<mapsto> i)))"

definition distance_table :: "score_table \<Rightarrow> string \<Rightarrow> string \<Rightarrow> score_table" where
  "distance_table score0 source target =
     (let m = length source; n = length target; INF' = int (m + n);
          score = set_cell score0 0 0 INF';
          (score, sd) = distance_init_rows source INF' (score, Map.empty);
          (score, sd) = distance_init_cols target INF' (score, sd);
          (score, sd) = fold (distance_row source target) [1..<m + 1] (score, sd)
      in score)"

text \<open>
  \<^verbatim>\<open>new Array(n+2)\<close> leaves the cells unset. The model starts from a table of zeros;
  \<open>distance_table_initial\<close> below shows that the result is the same for every initial
  content, so no unset cell is read on the way to the result.
\<close>

definition distance_fun :: "string \<Rightarrow> string \<Rightarrow> int" where
  "distance_fun source target =
     (if source = [] then (if target \<noteq> [] then int (length target) else 0)
      else if target = [] then int (length source)
      else distance_table (\<lambda>c. 0) source target (length source + 1, length target + 1))"

definition realEditDistance :: "EditItem \<Rightarrow> EditItem \<Rightarrow> string \<Rightarrow> int" where
  "realEditDistance dictItem inputPermutation input =
     (if term dictItem = input then 0
      else if distance dictItem = 0 then distance inputPermutation
      else if distance inputPermutation = 0 then distance dictItem
      else distance_fun (term dictItem) input)"

subsection \<open>The lookup engine\<close>

text \<open>
  The comparison function passed to \<^verbatim>\<open>Array.prototype.sort\<close>, and the sort itself: the
  array is sorted with respect to the comparison function, elements that compare equal
  keep their order.
\<close>

definition compare_suggestions :: "SuggestItem \<Rightarrow> SuggestItem \<Rightarrow> int" where
  "compare_suggestions a b =
     (let d = distance a - distance b in if d \<noteq> 0 then d else count b - count a)"

fun insert_by :: "('a \<Rightarrow> 'a \<Rightarrow> int) \<Rightarrow> 'a \<Rightarrow> 'a list \<Rightarrow> 'a list" where
  "insert_by cmp x [] = [x]"
| "insert_by cmp x (y # ys) = (if cmp x y \<le> 0 then x # y # ys else y # insert_by cmp x ys)"

definition Array_sort :: "('a \<Rightarrow> 'a \<Rightarrow> int) \<Rightarrow> 'a list \<Rightarrow> 'a list" where
  "Array_sort cmp xs = foldr (insert_by cmp) xs []"

text \<open>
  The local function \<^verbatim>\<open>sort\<close> of \<^verbatim>\<open>lookup\<close>. It is called as \<^verbatim>\<open>sort()\<close>, a plain function
  call, so inside it \<^verbatim>\<open>this\<close> is the global object and not the engine (the file is not in
  strict mode). The program defines no global \<^verbatim>\<open>mode\<close>, so \<^verbatim>\<open>this.mode\<close> is undefined there:
  the first argument of the model is that value, \<open>None\<close> at every call.
\<close>

definition lookup_sort :: "Modes option \<Rightarrow> SuggestItem list \<Rightarrow> SuggestItem list" where
  "lookup_sort this_mode suggestions' =
     (let suggestions' = filter (\<lambda>a. term a \<noteq> []) (Array_sort compare_suggestions suggestions')
      in if this_mode = Some Modes_TOP \<and> length suggestions' > 1 then [hd suggestions'] else suggestions')"

definition global_this_mode :: "Modes option" where
  "global_this_mode = None"

text \<open>
  The body of the loop of \<^verbatim>\<open>lookup\<close> over the stored list \<^verbatim>\<open>s\<close>, for the element
  \<^verbatim>\<open>suggestion\<close>; its state is the local array \<^verbatim>\<open>suggestions\<close>.
\<close>

definition lookup_suggestion :: "SymSpell \<Rightarrow> string \<Rightarrow> string \<Rightarrow> EditItem \<Rightarrow> EditItem \<Rightarrow> SuggestItem list \<Rightarrow> SuggestItem list" where
  "lookup_suggestion this language word candidate suggestion suggestions' =
     (if \<not> wordListContains suggestions' suggestion then
        (let distance' = realEditDistance suggestion candidate word in
         if mode this \<noteq> Modes_ALL \<and> suggestions' \<noteq> [] \<and> \<not> distance (hd suggestions') > distance'
            \<and> distance' > distance (hd suggestions')
         then suggestions'
         else
           (let suggestions' =
                  (if mode this \<noteq> Modes_ALL \<and> suggestions' \<noteq> [] \<and> distance (hd suggestions') > distance'
                   then [] else suggestions')
            in if distance' < maxEditDistance this then
                 (case dictionary this (language @ term suggestion) of
                    Some di \<Rightarrow>
                      suggestions' @ [\<lparr>term = term di, distance = distance', count = DictionaryItem.count di\<rparr>]
                  | None \<Rightarrow> suggestions')
               else suggestions'))
      else suggestions')"

text \<open>
  The last part of the loop body: one level of variants of the candidate is appended to
  the queue, each unless the queue already holds its term.
\<close>

definition lookup_enqueue :: "SymSpell \<Rightarrow> EditItem \<Rightarrow> EditItem list \<Rightarrow> EditItem list" where
  "lookup_enqueue this candidate candidates =
     (if distance candidate < maxEditDistance this then
        (let perms = computePermutations (term candidate) (distance candidate) (Some 0)
         in fold (\<lambda>p candidates. if \<not> wordListContains candidates p then candidates @ [p] else candidates)
              perms candidates)
      else candidates)"

text \<open>
  One iteration of the \<^verbatim>\<open>while\<close> loop of \<^verbatim>\<open>lookup\<close>, for the candidate taken from the head
  of the queue and the rest of the queue. \<open>Inl\<close> is a \<^verbatim>\<open>return sort()\<close> with the array
  \<^verbatim>\<open>suggestions\<close> as it is at that point; \<open>Inr\<close> is the state after the iteration.
\<close>

definition lookup_step ::
  "SymSpell \<Rightarrow> string \<Rightarrow> string \<Rightarrow> EditItem \<Rightarrow> EditItem list \<Rightarrow> SuggestItem list
     \<Rightarrow> SuggestItem list + EditItem list \<times> SuggestItem list" where
  "lookup_step this language word candidate candidates suggestions' =
     (if (mode this \<noteq> Modes_ALL \<and> suggestions' \<noteq> [] \<and> distance candidate > distance (hd suggestions'))
         \<or> distance candidate > maxEditDistance this
      then Inl suggestions'
      else
        (case dictionary this (language @ term candidate) of
           Some entry \<Rightarrow>
             (let si = \<lparr>term = term entry, distance = distance candidate,
                        count = DictionaryItem.count entry\<rparr>;
                  pushed = \<not> wordListContains suggestions' si;
                  suggestions' = (if pushed then suggestions' @ [si] else suggestions')
              in if pushed \<and> mode this \<noteq> Modes_ALL \<and> distance candidate = 0
                 then Inl suggestions'
                 else Inr (lookup_enqueue this candidate candidates,
                           fold (lookup_suggestion this language word candidate)
                             (suggestions entry) suggestions'))
         | None \<Rightarrow> Inr (lookup_enqueue this candidate candidates, suggestions')))"

text \<open>
  The \<^verbatim>\<open>while\<close> loop of \<^verbatim>\<open>lookup\<close>. Its result is \<open>None\<close> if the loop does not end.
\<close>

partial_function (option) lookup_loop ::
  "SymSpell \<Rightarrow> string \<Rightarrow> string \<Rightarrow> EditItem list \<Rightarrow> SuggestItem list \<Rightarrow> SuggestItem list option" where
  "lookup_loop this language word candidates suggestions' =
     (case candidates of
        [] \<Rightarrow> Some (lookup_sort global_this_mode suggestions')
      | candidate # candidates \<Rightarrow>
          (case lookup_step this language word candidate candidates suggestions' of
             Inl suggestions' \<Rightarrow> Some (lookup_sort global_this_mode suggestions')
           | Inr (candidates, suggestions') \<Rightarrow> lookup_loop this language word candidates suggestions'))"

declare lookup_loop.simps [code]

text \<open>\<^verbatim>\<open>SymSpell.prototype.lookup(word, language)\<close>; \<^verbatim>\<open>language || 'und'\<close> replaces the empty string.\<close>

definition lookup :: "SymSpell \<Rightarrow> string \<Rightarrow> string \<Rightarrow> SuggestItem list option" where
  "lookup this word language =
     (let language = (if language = [] then ''und'' else language);
          item = \<lparr>term = word, distance = 0\<rparr>
      in lookup_loop this language word [item] [])"

text \<open>
  A dictionary state built by a sequence of \<^verbatim>\<open>addWord\<close> calls, each with its word and its
  language; \<^verbatim>\<open>addWords\<close> is such a sequence, with one language.
\<close>

definition addWord_sequence :: "(string \<times> string) list \<Rightarrow> SymSpell \<Rightarrow> SymSpell" where
  "addWord_sequence calls this = fold (\<lambda>(word, language) this. addWord this word language) calls this"


subsection \<open>Auxiliary definitions for the proofs\<close>

text \<open>
  The first \<open>n\<close> single deletions of a word, in the order of the loop of
  \<^verbatim>\<open>computePermutations\<close>.
\<close>

definition deletions :: "string \<Rightarrow> int \<Rightarrow> nat \<Rightarrow> EditItem list" where
  "deletions word d n = map (\<lambda>i. \<lparr>term = take i word @ drop (i + 1) word, distance = d\<rparr>) [0..<n]"

text \<open>
  A measure for the queue of \<^verbatim>\<open>lookup\<close>: a candidate of length \<open>n\<close> weighs more than
  \<open>n\<close> candidates of length \<open>n - 1\<close>.
\<close>

fun weight :: "nat \<Rightarrow> nat" where
  "weight 0 = 1"
| "weight (Suc n) = Suc (Suc n * weight n)"

definition queue_weight :: "EditItem list \<Rightarrow> nat" where
  "queue_weight cs = sum_list (map (\<lambda>c. weight (length (term c))) cs)"


text \<open>
  Invariants of the dictionary: the distances of a stored list are all equal to the
  first one; every key is a language followed by a non-empty string.
\<close>

definition uniform :: "EditItem list \<Rightarrow> bool" where
  "uniform xs \<longleftrightarrow> (\<forall>a\<in>set xs. distance a = distance (hd xs))"

definition entries_uniform :: "SymSpell \<Rightarrow> bool" where
  "entries_uniform this \<longleftrightarrow> (\<forall>k e. dictionary this k = Some e \<longrightarrow> uniform (suggestions e))"

definition keys_within :: "string set \<Rightarrow> SymSpell \<Rightarrow> bool" where
  "keys_within languages this \<longleftrightarrow>
     (\<forall>k\<in>dom (dictionary this). \<exists>l\<in>languages. \<exists>s. s \<noteq> [] \<and> k = l @ s)"

text \<open>
  The content of the table of \<^verbatim>\<open>distance\<close> as a recursive function of the row and the
  column. \<open>last_row s ch i\<close> is the last position up to \<open>i\<close> that holds \<open>ch\<close> in \<open>s\<close>
  (positions count from 1; 0 if there is none): the value of \<^verbatim>\<open>sd[ch]\<close> after \<open>i\<close> rows
  and, for the other string, of \<^verbatim>\<open>DB\<close> after \<open>i\<close> columns.
\<close>

fun last_row :: "string \<Rightarrow> char \<Rightarrow> nat \<Rightarrow> nat" where
  "last_row s ch 0 = 0"
| "last_row s ch (Suc i) = (if s ! i = ch then Suc i else last_row s ch i)"

lemma last_row_le: "last_row s ch i \<le> i"
  by (induction i) auto

function score_spec :: "string \<Rightarrow> string \<Rightarrow> nat \<Rightarrow> nat \<Rightarrow> int" where
  "score_spec a b r c =
     (if r = 0 \<or> c = 0 then int (length a + length b)
      else if r = 1 then int (c - 1)
      else if c = 1 then int (r - 1)
      else min (if a ! (r - 2) = b ! (c - 2) then score_spec a b (r - 1) (c - 1)
                else min (score_spec a b (r - 1) (c - 1))
                       (min (score_spec a b r (c - 1)) (score_spec a b (r - 1) c)) + 1)
               (score_spec a b (last_row a (b ! (c - 2)) (r - 2)) (last_row b (a ! (r - 2)) (c - 2))
                  + (int (r - 1) - int (last_row a (b ! (c - 2)) (r - 2)) - 1) + 1
                  + (int (c - 1) - int (last_row b (a ! (r - 2)) (c - 2)) - 1)))"
  by pat_completeness auto
termination
  apply (relation "measure (\<lambda>(a, b, r, c). r + c)")
       apply auto
  subgoal for a b r c
    using last_row_le[of a "b ! (c - 2)" "r - 2"] last_row_le[of b "a ! (r - 2)" "c - 2"]
    by linarith
  done

declare score_spec.simps [simp del]

text \<open>
  The invariants of the loops of \<^verbatim>\<open>distance\<close>: the rows up to \<open>i\<close>, the first two columns
  and the row \<open>i + 1\<close> up to the column \<open>j + 1\<close> hold the values of \<open>score_spec\<close>; \<^verbatim>\<open>sd\<close>
  holds the last rows of the characters of both strings.
\<close>

definition table_upto :: "string \<Rightarrow> string \<Rightarrow> nat \<Rightarrow> nat \<Rightarrow> score_table \<Rightarrow> bool" where
  "table_upto a b i j score \<longleftrightarrow>
     (\<forall>r c. r \<le> length a + 1 \<longrightarrow> c \<le> length b + 1 \<longrightarrow>
        (r \<le> i \<or> c \<le> 1 \<or> (r = i + 1 \<and> c \<le> j + 1)) \<longrightarrow> score (r, c) = score_spec a b r c)"

definition sd_upto :: "string \<Rightarrow> string \<Rightarrow> nat \<Rightarrow> (char \<rightharpoonup> nat) \<Rightarrow> bool" where
  "sd_upto a b i sd \<longleftrightarrow>
     (\<forall>ch. sd ch = (if ch \<in> set a \<union> set b then Some (last_row a ch i) else None))"


subsection \<open>Properties of the variant generator\<close>

lemma fold_invariant:
  assumes "P s" and "\<And>x s. x \<in> set xs \<Longrightarrow> P s \<Longrightarrow> P (f x s)"
  shows "P (fold f xs s)"
  using assms by (induction xs arbitrary: s) auto

lemma indexOf_absent: "indexOf qs p = - 1 \<longleftrightarrow> fst p \<notin> fst ` set qs"
proof (induction qs)
  case Nil
  show ?case by simp
next
  case (Cons q qs)
  have nonneg: "\<And>xs. indexOf xs p \<ge> - 1"
    subgoal for xs by (induction xs) (auto simp: Let_def)
    done
  from Cons nonneg[of qs] show ?case by (auto simp: Let_def)
qed

lemma fold_fresh:
  assumes "\<And>i perms fr. i < n \<Longrightarrow> (\<forall>q\<in>set perms. fst q < fr) \<Longrightarrow>
             f i (perms, fr) = (perms @ [(fr, item i)], Suc fr)"
  shows "fold f [0..<n] ([], free) = (map (\<lambda>i. (free + i, item i)) [0..<n], free + n)"
  using assms
proof (induction n)
  case 0
  show ?case by simp
next
  case (Suc n)
  have "fold f [0..<n] ([], free) = (map (\<lambda>i. (free + i, item i)) [0..<n], free + n)"
    using Suc.prems by (intro Suc.IH) auto
  moreover have "f n (map (\<lambda>i. (free + i, item i)) [0..<n], free + n)
      = (map (\<lambda>i. (free + i, item i)) [0..<n] @ [(free + n, item n)], Suc (free + n))"
    by (rule Suc.prems) auto
  ultimately show ?case by simp
qed

lemma computePermutations_at_one_level:
  assumes "\<not> (case mx of None \<Rightarrow> False | Some m \<Rightarrow> d + 1 < m)"
  shows "computePermutations_at free word d mx =
     (if length word > 1
      then (map (\<lambda>i. (free + i, \<lparr>term = take i word @ drop (i + 1) word, distance = d + 1\<rparr>))
              [0..<length word], free + length word)
      else ([], free))"
proof (cases "length word > 1")
  case False
  then show ?thesis by simp
next
  case True
  show ?thesis
    apply (subst computePermutations_at.simps)
    apply (simp only: Let_def True if_True)
    apply (rule fold_fresh)
    using assms apply (auto simp: indexOf_absent)
    done
qed

lemma computePermutations_one_level:
  "0 \<le> d \<Longrightarrow> computePermutations word d (Some 0) =
     (if length word > 1 then deletions word (d + 1) (length word) else [])"
  by (simp add: computePermutations_def computePermutations_at_one_level deletions_def comp_def
           del: computePermutations_at.simps)


lemma push_if_absent_set: "set (push_if_absent ps q) \<subseteq> insert q (set ps)"
  by (auto simp: push_if_absent_def)

lemma fold_push_if_absent_set:
  "set (fold (\<lambda>q permutations. push_if_absent permutations q) qs ps) \<subseteq> set qs \<union> set ps"
proof (induction qs arbitrary: ps)
  case Nil
  show ?case by simp
next
  case (Cons q qs)
  show ?case using Cons[of "push_if_absent ps q"] push_if_absent_set[of ps q] by auto
qed

lemma computePermutations_at_shorter:
  "\<forall>q \<in> set (fst (computePermutations_at free word d mx)).
      term (snd q) \<noteq> [] \<and> length (term (snd q)) < length word"
proof (induction free word d mx rule: computePermutations_at.induct)
  case (1 free word d mx)
  define P where "P = (\<lambda>s :: (ref \<times> EditItem) list \<times> ref.
     \<forall>q\<in>set (fst s). term (snd q) \<noteq> [] \<and> length (term (snd q)) < length word)"
  show ?case
  proof (cases "length word > 1")
    case False
    then show ?thesis by simp
  next
    case True
    have step: "P (case s of (permutations, free) \<Rightarrow>
                let p = (free, \<lparr>term = take i word @ drop (i + 1) word, distance = d + 1\<rparr>);
                    free = free + 1
                in if indexOf permutations p = - 1 then
                     (let permutations = permutations @ [p] in
                      if (case mx of None \<Rightarrow> False | Some m \<Rightarrow> d + 1 < m) then
                        (let (nextPermutations, free) =
                               computePermutations_at free (term (snd p)) (d + 1) mx
                         in (fold (\<lambda>q permutations. push_if_absent permutations q)
                               nextPermutations permutations, free))
                      else (permutations, free))
                   else (permutations, free))"
      if i: "i \<in> set [0..<length word]" and s: "P s" for i s
    proof -
      obtain perms fr where [simp]: "s = (perms, fr)" by (cases s)
      let ?t = "take i word @ drop (i + 1) word"
      let ?p = "(fr, \<lparr>term = ?t, distance = d + 1\<rparr>)"
      have len: "length ?t = length word - 1" using i by auto
      have pt: "?t \<noteq> []" using len True by (metis One_nat_def length_0_conv zero_less_diff less_numeral_extra(3))
      have Pp: "P (perms @ [?p], k)" for k
        using s len pt True unfolding P_def by auto
      have Ps: "P (perms, k)" for k
        using s unfolding P_def by simp
      show ?thesis
      proof (cases "indexOf perms ?p = - 1 \<and> (case mx of None \<Rightarrow> False | Some m \<Rightarrow> d + 1 < m)")
        case False
        then show ?thesis using Ps Pp by (auto simp: Let_def)
      next
        case c: True
        have IH: "\<forall>q \<in> set (fst (computePermutations_at (fr + 1) ?t (d + 1) mx)).
                    term (snd q) \<noteq> [] \<and> length (term (snd q)) < length ?t"
          using "1.IH"[OF refl refl True i refl refl _ refl, of perms fr] c by simp
        obtain nxt fr' where nxt: "computePermutations_at (fr + 1) ?t (d + 1) mx = (nxt, fr')"
          by (cases "computePermutations_at (fr + 1) ?t (d + 1) mx")
        have "P (fold (\<lambda>q permutations. push_if_absent permutations q) nxt (perms @ [?p]), fr')"
          unfolding P_def
        proof
          fix q assume "q \<in> set (fst (fold (\<lambda>q permutations. push_if_absent permutations q) nxt (perms @ [?p]), fr'))"
          then have "q \<in> set nxt \<or> q \<in> set (perms @ [?p])"
            using fold_push_if_absent_set[of nxt "perms @ [?p]"] by auto
          then show "term (snd q) \<noteq> [] \<and> length (term (snd q)) < length word"
          proof
            assume "q \<in> set nxt"
            then show ?thesis using IH nxt len True by fastforce
          next
            assume "q \<in> set (perms @ [?p])"
            moreover have "\<forall>q\<in>set (perms @ [?p]). term (snd q) \<noteq> [] \<and> length (term (snd q)) < length word"
              using Pp[of 0] unfolding P_def by (simp only: fst_conv)
            ultimately show ?thesis by blast
          qed
        qed
        then show ?thesis using c nxt by (simp add: Let_def)
      qed
    qed
    have "P (fold (\<lambda>i (permutations, free).
                let p = (free, \<lparr>term = take i word @ drop (i + 1) word, distance = d + 1\<rparr>);
                    free = free + 1
                in if indexOf permutations p = - 1 then
                     (let permutations = permutations @ [p] in
                      if (case mx of None \<Rightarrow> False | Some m \<Rightarrow> d + 1 < m) then
                        (let (nextPermutations, free) =
                               computePermutations_at free (term (snd p)) (d + 1) mx
                         in (fold (\<lambda>q permutations. push_if_absent permutations q)
                               nextPermutations permutations, free))
                      else (permutations, free))
                   else (permutations, free)) [0..<length word] ([], free))"
      by (rule fold_invariant[where P = P]) (simp add: P_def, rule step)
    then show ?thesis
      apply (subst computePermutations_at.simps)
      apply (simp only: Let_def True if_True P_def)
      done
  qed
qed

lemma computePermutations_shorter:
  "p \<in> set (computePermutations word d mx) \<Longrightarrow> term p \<noteq> [] \<and> length (term p) < length word"
  using computePermutations_at_shorter[of 0 word d mx]
  by (auto simp: computePermutations_def simp del: computePermutations_at.simps)

text \<open>
  C4. The claim: the list returned by one call of \<^verbatim>\<open>computePermutations\<close> holds no two
  elements with the same string. The code compares a freshly created object with the
  objects already in the array by identity, which never finds it, so nothing is removed:
  for the word \<open>aa\<close> and one level of deletion the list holds the string \<open>a\<close> twice.
\<close>

theorem computePermutations_duplicates:
  "computePermutations ''aa'' 0 (Some 0) =
     [\<lparr>term = ''a'', distance = 1\<rparr>, \<lparr>term = ''a'', distance = 1\<rparr>]
   \<and> \<not> distinct (map term (computePermutations ''aa'' 0 (Some 0)))"
  by (simp add: computePermutations_def upt_rec)

subsection \<open>Termination of the lookup loop\<close>

lemma queue_weight_simps [simp]:
  "queue_weight [] = 0"
  "queue_weight (c # cs) = weight (length (term c)) + queue_weight cs"
  "queue_weight (cs @ ds) = queue_weight cs + queue_weight ds"
  by (simp_all add: queue_weight_def)

lemma enqueue_weight:
  "queue_weight (fold (\<lambda>p cs. if \<not> wordListContains cs p then cs @ [p] else cs) ps cs)
     \<le> queue_weight cs + queue_weight ps"
proof (induction ps arbitrary: cs)
  case Nil
  show ?case by simp
next
  case (Cons p ps)
  show ?case
    using Cons[of "cs @ [p]"] Cons[of cs] by auto
qed

lemma enqueue_set:
  "set (fold (\<lambda>p cs. if \<not> wordListContains cs p then cs @ [p] else cs) ps cs) \<subseteq> set cs \<union> set ps"
proof (induction ps arbitrary: cs)
  case Nil
  show ?case by simp
next
  case (Cons p ps)
  show ?case
    using Cons[of "cs @ [p]"] Cons[of cs] by auto
qed

lemma deletions_weight:
  "n \<le> length word \<Longrightarrow> queue_weight (deletions word d n) = n * weight (length word - 1)"
proof (induction n)
  case 0
  show ?case by (simp add: deletions_def)
next
  case (Suc n)
  then have "queue_weight (deletions word d n) = n * weight (length word - 1)" by simp
  moreover have "length (take n word @ drop (Suc n) word) = length word - 1"
    using Suc.prems by auto
  ultimately show ?case
    by (simp add: deletions_def)
qed

lemma deletions_distance: "c \<in> set (deletions word d n) \<Longrightarrow> distance c = d"
  by (auto simp: deletions_def)

lemma lookup_enqueue_weight:
  assumes "0 \<le> distance c"
  shows "queue_weight (lookup_enqueue this c cs) < queue_weight (c # cs)"
proof -
  let ?perms = "computePermutations (term c) (distance c) (Some 0)"
  have "queue_weight ?perms < weight (length (term c))"
  proof (cases "length (term c)")
    case 0
    then show ?thesis by (simp add: computePermutations_one_level assms)
  next
    case (Suc n)
    then show ?thesis
      using deletions_weight[of "length (term c)" "term c" "distance c + 1"]
      by (simp add: computePermutations_one_level assms)
  qed
  moreover have "0 < weight (length (term c))" by (cases "length (term c)") auto
  ultimately show ?thesis
    using enqueue_weight[of ?perms cs]
    by (auto simp: lookup_enqueue_def Let_def)
qed

lemma lookup_enqueue_distance:
  assumes "0 \<le> distance c" and "\<forall>x\<in>set cs. 0 \<le> distance x"
  shows "\<forall>x\<in>set (lookup_enqueue this c cs). 0 \<le> distance x"
proof -
  let ?perms = "computePermutations (term c) (distance c) (Some 0)"
  have "\<forall>x\<in>set ?perms. 0 \<le> distance x"
    using assms(1) by (auto simp: computePermutations_one_level dest: deletions_distance)
  then show ?thesis
    using enqueue_set[of ?perms cs] assms(2)
    by (auto simp: lookup_enqueue_def Let_def)
qed

lemma lookup_step_Inr:
  assumes "lookup_step this language word c cs suggs = Inr (cs', suggs')"
  shows "cs' = lookup_enqueue this c cs"
  using assms
  by (auto simp: lookup_step_def Let_def split: if_splits option.splits)

lemma lookup_loop_returns:
  assumes "\<forall>c\<in>set cs. 0 \<le> distance c"
  shows "\<exists>s. lookup_loop this language word cs suggs = Some (lookup_sort global_this_mode s)"
  using assms
proof (induction "queue_weight cs" arbitrary: cs suggs rule: less_induct)
  case less
  show ?case
  proof (cases cs)
    case Nil
    then show ?thesis by (subst lookup_loop.simps) auto
  next
    case (Cons c rest)
    from less.prems Cons have c: "0 \<le> distance c" and rest: "\<forall>x\<in>set rest. 0 \<le> distance x"
      by auto
    show ?thesis
    proof (cases "lookup_step this language word c rest suggs")
      case (Inl s)
      then show ?thesis using Cons by (subst lookup_loop.simps) auto
    next
      case (Inr st)
      obtain cs' suggs' where st: "st = (cs', suggs')" by (cases st)
      have cs': "cs' = lookup_enqueue this c rest"
        using Inr st by (auto dest: lookup_step_Inr)
      have "queue_weight cs' < queue_weight cs"
        using lookup_enqueue_weight[OF c, of this rest] cs' Cons by simp
      moreover have "\<forall>x\<in>set cs'. 0 \<le> distance x"
        using lookup_enqueue_distance[OF c rest] cs' by simp
      ultimately obtain s where "lookup_loop this language word cs' suggs' = Some (lookup_sort global_this_mode s)"
        using less.hyps by blast
      then show ?thesis using Cons Inr st by (subst lookup_loop.simps) auto
    qed
  qed
qed

lemma lookup_returns:
  "\<exists>s. lookup this word language = Some (lookup_sort global_this_mode s)"
  unfolding lookup_def Let_def by (rule lookup_loop_returns) simp

text \<open>
  C10. \<^verbatim>\<open>lookup\<close> terminates for every input word and every dictionary state: the loop
  returns a list, and every candidate that an iteration generates from a candidate with
  the term \<open>t\<close> is strictly shorter than \<open>t\<close>.
\<close>

theorem lookup_terminates:
  "(\<exists>r. lookup this word language = Some r) \<and>
   (\<forall>p\<in>set (computePermutations t d (Some 0)). length (term p) < length t)"
  using lookup_returns[of this word language] computePermutations_shorter[of _ t d "Some 0"]
  by blast

theorem lookup_terminates_witness:
  "(\<exists>r. lookup (addWord (new_SymSpell None None) ''in'' ''en'') ''nn'' ''en'' = Some r) \<and>
   \<lparr>term = ''n'', distance = 1\<rparr> \<in> set (computePermutations ''nn'' 0 (Some 0)) \<and>
   length (term \<lparr>term = ''n'', distance = 1\<rparr>) < length ''nn''"
  using lookup_terminates[of "addWord (new_SymSpell None None) ''in'' ''en''" "''nn''" "''en''" "''nn''" 0]
  by (simp add: computePermutations_one_level deletions_def upt_rec)

subsection \<open>The order of the result\<close>









subsection \<open>Invariants of the insertion pipeline\<close>

lemma addWord_suggestion_fields [simp]:
  "mode (addWord_suggestion word language ps this) = mode this"
  "maxEditDistance (addWord_suggestion word language ps this) = maxEditDistance this"
  by (auto simp: addWord_suggestion_def Let_def split: option.splits)

lemma increment_count_fields [simp]:
  "mode (increment_count key this) = mode this"
  "maxEditDistance (increment_count key this) = maxEditDistance this"
  by (auto simp: increment_count_def split: option.splits)

lemma fold_addWord_suggestion_fields [simp]:
  "mode (fold (addWord_suggestion word language) pss this) = mode this"
  "maxEditDistance (fold (addWord_suggestion word language) pss this) = maxEditDistance this"
  by (induction pss arbitrary: this) auto

lemma addWord_fields [simp]:
  "mode (addWord this word language) = mode this"
  "maxEditDistance (addWord this word language) = maxEditDistance this"
  by (auto simp: addWord_def Let_def split: option.splits)

lemma addWord_sequence_fields [simp]:
  "mode (addWord_sequence calls this) = mode this"
  "maxEditDistance (addWord_sequence calls this) = maxEditDistance this"
  unfolding addWord_sequence_def by (induction calls arbitrary: this) auto

lemma addWord_sequence_Cons: "addWord_sequence ((word, language) # calls) this = addWord_sequence calls (addWord this word language)"
  by (simp add: addWord_sequence_def)

text \<open>\<^verbatim>\<open>addWords\<close> is a sequence of \<^verbatim>\<open>addWord\<close> calls under one language.\<close>

lemma addWords_sequence:
  "addWords this corpus language tokenizer =
     addWord_sequence
       (map (\<lambda>w. (w, if language = [] then ''und'' else language)) (tokenizer corpus)) this"
  by (simp add: addWords_def addWord_sequence_def fold_map comp_def)

text \<open>Entries: what one step does to the entry under a key.\<close>

lemma addWord_suggestion_entry:
  "dictionary (addWord_suggestion word language ps this) k =
     (if k = language @ term ps then
        (case dictionary this k of
           Some entry \<Rightarrow>
             Some (if \<not> wordListContains (suggestions entry) \<lparr>term = word, distance = distance ps\<rparr>
                   then entry\<lparr>suggestions := addOrTerminateEarly (suggestions entry)
                                \<lparr>term = word, distance = distance ps\<rparr> (mode this)\<rparr>
                   else entry)
         | None \<Rightarrow> Some (new_DictionaryItem\<lparr>suggestions := [\<lparr>term = word, distance = distance ps\<rparr>]\<rparr>))
      else dictionary this k)"
  by (auto simp: addWord_suggestion_def Let_def split: option.splits)

lemma increment_count_entry:
  "dictionary (increment_count key this) k =
     (if k = key then map_option (\<lambda>item. item\<lparr>DictionaryItem.count := DictionaryItem.count item + 1\<rparr>) (dictionary this k)
      else dictionary this k)"
  by (auto simp: increment_count_def split: option.splits)

text \<open>The term of an entry never changes.\<close>

lemma addWord_suggestion_term:
  "dictionary this k = Some e \<Longrightarrow>
   \<exists>e'. dictionary (addWord_suggestion word language ps this) k = Some e' \<and> term e' = term e"
  by (auto simp: addWord_suggestion_entry)

lemma fold_addWord_suggestion_term:
  "dictionary this k = Some e \<Longrightarrow>
   \<exists>e'. dictionary (fold (addWord_suggestion word language) pss this) k = Some e' \<and> term e' = term e"
proof (induction pss arbitrary: this e)
  case Nil
  then show ?case by simp
next
  case (Cons ps pss)
  obtain e1 where "dictionary (addWord_suggestion word language ps this) k = Some e1" "term e1 = term e"
    using addWord_suggestion_term[OF Cons.prems] by blast
  then show ?case using Cons.IH[of "addWord_suggestion word language ps this" e1] by auto
qed

lemma increment_count_term:
  "dictionary this k = Some e \<Longrightarrow>
   \<exists>e'. dictionary (increment_count key this) k = Some e' \<and> term e' = term e"
  by (auto simp: increment_count_entry)

lemma addWord_term:
  assumes "dictionary this k = Some e"
  shows "\<exists>e'. dictionary (addWord this word language) k = Some e' \<and> term e' = term e"
proof (cases "dictionary this (language @ word)")
  case (Some item)
  then show ?thesis using increment_count_term[OF assms] by (simp add: addWord_def)
next
  case None
  let ?this1 = "this\<lparr>dictionary := (dictionary this)(language @ word \<mapsto> new_DictionaryItem\<lparr>term := word\<rparr>)\<rparr>"
  have "k \<noteq> language @ word" using assms None by auto
  then have "dictionary ?this1 k = Some e" using assms by simp
  then obtain e1 where "dictionary (fold (addWord_suggestion word language)
        (computePermutations word 0 (Some (maxEditDistance ?this1))) ?this1) k = Some e1" "term e1 = term e"
    using fold_addWord_suggestion_term by blast
  then show ?thesis
    using None increment_count_term[of _ k e1 "language @ word"]
    by (auto simp: addWord_def Let_def)
qed

lemma addWord_sequence_term:
  "dictionary this k = Some e \<Longrightarrow> \<exists>e'. dictionary (addWord_sequence calls this) k = Some e' \<and> term e' = term e"
proof (induction calls arbitrary: this e)
  case Nil
  then show ?case by (simp add: addWord_sequence_def)
next
  case (Cons c calls)
  obtain word language where c: "c = (word, language)" by (cases c)
  obtain e1 where "dictionary (addWord this word language) k = Some e1" "term e1 = term e"
    using addWord_term[OF Cons.prems] by blast
  then show ?case using Cons.IH[of "addWord this word language" e1] c by (auto simp: addWord_sequence_Cons)
qed

lemma addWord_new_term:
  assumes "dictionary this (language @ word) = None"
  shows "\<exists>e. dictionary (addWord this word language) (language @ word) = Some e \<and> term e = word"
proof -
  let ?this1 = "this\<lparr>dictionary := (dictionary this)(language @ word \<mapsto> new_DictionaryItem\<lparr>term := word\<rparr>)\<rparr>"
  have "dictionary ?this1 (language @ word) = Some (new_DictionaryItem\<lparr>term := word\<rparr>)" by simp
  then obtain e1 where "dictionary (fold (addWord_suggestion word language)
        (computePermutations word 0 (Some (maxEditDistance ?this1))) ?this1) (language @ word) = Some e1"
      "term e1 = term (new_DictionaryItem\<lparr>term := word\<rparr>)"
    using fold_addWord_suggestion_term by blast
  then show ?thesis
    using assms increment_count_term[of _ "language @ word" e1 "language @ word"]
    by (auto simp: addWord_def Let_def)
qed

subsection \<open>Exact matches\<close>

lemma lookup_sort_single:
  "term si \<noteq> [] \<Longrightarrow> lookup_sort global_this_mode [si] = [si]"
  by (simp add: lookup_sort_def global_this_mode_def Array_sort_def)

lemma lookup_exact:
  assumes "mode this \<noteq> Modes_ALL" and "0 \<le> maxEditDistance this"
    and "word \<noteq> []"
    and "language' = (if language = [] then ''und'' else language)"
    and "dictionary this (language' @ word) = Some e" and "term e = word"
  shows "lookup this word language =
           Some [\<lparr>term = word, distance = 0, count = DictionaryItem.count e\<rparr>]"
proof -
  have "lookup_step this language' word \<lparr>term = word, distance = 0\<rparr> [] []
          = Inl [\<lparr>term = word, distance = 0, count = DictionaryItem.count e\<rparr>]"
    using assms(1,2,5,6) by (simp add: lookup_step_def Let_def)
  then have "lookup_loop this language' word [\<lparr>term = word, distance = 0\<rparr>] [] =
      Some (lookup_sort global_this_mode [\<lparr>term = word, distance = 0, count = DictionaryItem.count e\<rparr>])"
    by (subst lookup_loop.simps) simp
  then show ?thesis
    using assms(3) unfolding lookup_def Let_def assms(4)[symmetric]
    by (simp add: lookup_sort_single)
qed

text \<open>
  The empty string is the mark of an entry without a term: the empty word, added
  verbatim, is stored with the empty string as its term, and \<^verbatim>\<open>sort\<close> filters its item
  out as it does every item without a term.
\<close>

lemma lookup_empty_word:
  "lookup (addWord (new_SymSpell None (Some Modes_TOP)) [] ''en'') [] ''en'' = Some []"
  by (simp add: lookup_def lookup_loop.simps lookup_step_def lookup_sort_def global_this_mode_def
        Array_sort_def addWord_def increment_count_def new_SymSpell_def new_DictionaryItem_def
        computePermutations_def equals_def Let_def)

text \<open>
  The exact match of a word that \<^verbatim>\<open>addWord\<close> stores. A non-empty word is added by an
  \<^verbatim>\<open>addWord\<close> call that finds no entry under its key, so that the call stores the term;
  the maximum edit distance is not negative and the mode is SMALLEST or TOP. Then, after
  any further \<^verbatim>\<open>addWord\<close> calls, \<^verbatim>\<open>lookup\<close> of the word under the language it was added
  under (the empty language argument stands for \<open>und\<close>) returns exactly one suggestion,
  with distance 0 and the word as its term. The last hypothesis keeps every read of
  these calls away from the members inherited from \<^verbatim>\<open>Object.prototype\<close>.
\<close>

lemma lookup_exact_new:
  assumes "mode this \<noteq> Modes_ALL" and "0 \<le> maxEditDistance this"
    and "word \<noteq> []"
    and "language' = (if language = [] then ''und'' else language)"
    and "dictionary this (language' @ word) = None"
    and "\<forall>l\<in>insert language' (snd ` set calls).
           \<forall>member\<in>set Object_prototype_members. \<forall>s. member \<noteq> l @ s"
  shows "\<exists>c. lookup (addWord_sequence calls (addWord this word language')) word language =
           Some [\<lparr>term = word, distance = 0, count = c\<rparr>]"
proof -
  obtain e where "dictionary (addWord this word language') (language' @ word) = Some e" "term e = word"
    using addWord_new_term[OF assms(5)] by blast
  then obtain e' where e':
      "dictionary (addWord_sequence calls (addWord this word language')) (language' @ word) = Some e'"
      "term e' = word"
    using addWord_sequence_term[of "addWord this word language'" "language' @ word" e calls] by auto
  show ?thesis
    using lookup_exact[OF _ _ assms(3,4) e'] assms(1,2) by auto
qed

subsection \<open>Keys of the dictionary and the empty input\<close>

lemma keys_within_addWord_suggestion:
  assumes "keys_within languages this" and "language \<in> languages" and "term ps \<noteq> []"
  shows "keys_within languages (addWord_suggestion word language ps this)"
  unfolding keys_within_def
proof
  fix k assume "k \<in> dom (dictionary (addWord_suggestion word language ps this))"
  then have "k = language @ term ps \<or> k \<in> dom (dictionary this)"
    by (auto simp: addWord_suggestion_entry split: if_splits)
  then show "\<exists>l\<in>languages. \<exists>s. s \<noteq> [] \<and> k = l @ s"
    using assms unfolding keys_within_def by auto
qed

lemma keys_within_fold:
  assumes "keys_within languages this" and "language \<in> languages" and "\<forall>ps\<in>set pss. term ps \<noteq> []"
  shows "keys_within languages (fold (addWord_suggestion word language) pss this)"
  using assms
  by (induction pss arbitrary: this) (auto intro: keys_within_addWord_suggestion)

lemma dom_increment_count: "dom (dictionary (increment_count key this)) = dom (dictionary this)"
  by (auto simp: increment_count_entry split: if_splits)

lemma keys_within_increment_count:
  "keys_within languages this \<Longrightarrow> keys_within languages (increment_count key this)"
  unfolding keys_within_def by (simp only: dom_increment_count)

lemma keys_within_addWord:
  assumes "keys_within languages this" and "language \<in> languages" and "word \<noteq> []"
  shows "keys_within languages (addWord this word language)"
proof (cases "dictionary this (language @ word)")
  case (Some item)
  then show ?thesis using assms(1) by (simp add: addWord_def keys_within_increment_count)
next
  case None
  let ?this1 = "this\<lparr>dictionary := (dictionary this)(language @ word \<mapsto> new_DictionaryItem\<lparr>term := word\<rparr>)\<rparr>"
  have "keys_within languages ?this1"
    using assms unfolding keys_within_def by auto
  then have "keys_within languages (fold (addWord_suggestion word language)
        (computePermutations word 0 (Some (maxEditDistance ?this1))) ?this1)"
    using assms(2) computePermutations_shorter by (intro keys_within_fold) auto
  then show ?thesis
    using None by (simp add: addWord_def Let_def keys_within_increment_count)
qed

lemma keys_within_addWord_sequence:
  assumes "keys_within languages this" and "\<forall>c\<in>set calls. fst c \<noteq> [] \<and> snd c \<in> languages"
  shows "keys_within languages (addWord_sequence calls this)"
  using assms
proof (induction calls arbitrary: this)
  case Nil
  then show ?case by (simp add: addWord_sequence_def)
next
  case (Cons c calls)
  obtain word language where c: "c = (word, language)" by (cases c)
  have "keys_within languages (addWord this word language)"
    using Cons.prems c by (intro keys_within_addWord) auto
  then show ?case using Cons c by (simp add: addWord_sequence_Cons)
qed

lemma computePermutations_Nil: "computePermutations [] d mx = []"
  by (simp add: computePermutations_def)

lemma lookup_sort_Nil: "lookup_sort m [] = []"
  by (simp add: lookup_sort_def Array_sort_def)

lemma lookup_loop_Nil: "lookup_loop this language word [] suggs = Some (lookup_sort global_this_mode suggs)"
  by (subst lookup_loop.simps) simp

lemma lookup_empty_absent:
  assumes "language' = (if language = [] then ''und'' else language)"
    and "dictionary this language' = None"
  shows "lookup this [] language = Some []"
proof -
  have "lookup_step this language' [] \<lparr>term = [], distance = 0\<rparr> [] [] = Inl [] \<or>
        lookup_step this language' [] \<lparr>term = [], distance = 0\<rparr> [] [] = Inr ([], [])"
    using assms(2) by (simp add: lookup_step_def lookup_enqueue_def computePermutations_Nil)
  then have "lookup_loop this language' [] [\<lparr>term = [], distance = 0\<rparr>] [] = Some []"
    by (subst lookup_loop.simps) (auto simp: lookup_loop_Nil lookup_sort_Nil)
  then show ?thesis
    unfolding lookup_def Let_def assms(1)[symmetric] .
qed

text \<open>
  When no member name of \<^verbatim>\<open>Object.prototype\<close> begins with the language, every read
  \<^verbatim>\<open>this.dictionary[language + t]\<close> finds an own property or nothing, as the model of
  \<^verbatim>\<open>addWord\<close> and \<^verbatim>\<open>lookup\<close> has it.
\<close>

lemma read_dictionary_own:
  assumes "\<forall>member\<in>set Object_prototype_members. \<forall>s. member \<noteq> language @ s"
  shows "read_dictionary this (language @ t) =
           (case dictionary this (language @ t) of Some item \<Rightarrow> Own item | None \<Rightarrow> Undefined)"
  using assms by (auto simp: read_dictionary_def split: option.splits)

text \<open>
  C9. The claim: on a dictionary built with non-empty terms under the constraint on
  the language identifiers, \<^verbatim>\<open>lookup("", language)\<close> throws no exception and returns the
  empty list. The key of the first iteration is the language itself. For the language
  \<open>constructor\<close> on a new engine the read finds the inherited member, where the
  dictionary holds no such key: the code takes the branch of an existing entry, reads
  the undefined \<^verbatim>\<open>suggestions\<close> of that member and throws a \<^verbatim>\<open>TypeError\<close> at \<^verbatim>\<open>s.length\<close>.
\<close>

lemma read_constructor_inherited:
  "read_dictionary (new_SymSpell None None) (''constructor'' @ []) = Inherited \<and>
   dictionary (new_SymSpell None None) (''constructor'' @ []) = None"
  by (simp add: read_dictionary_def new_SymSpell_def Object_prototype_members_def)

text \<open>
  Apart from the inherited members the claim holds. The dictionary is built by
  \<^verbatim>\<open>addWord\<close> calls with non-empty terms; no language identifier in use is a proper
  prefix of another one, and none is the beginning of a member name of
  \<^verbatim>\<open>Object.prototype\<close>; the identifiers in use are the languages of the calls and the one
  \<^verbatim>\<open>lookup\<close> uses (\<open>und\<close> for the empty argument). Then the read of the first iteration
  finds nothing and \<^verbatim>\<open>lookup("", language)\<close> returns the empty list.
\<close>

lemma lookup_empty_term:
  assumes "\<forall>c\<in>set calls. fst c \<noteq> []"
    and "language' = (if language = [] then ''und'' else language)"
    and "\<forall>x\<in>insert language' (snd ` set calls). \<forall>y\<in>insert language' (snd ` set calls).
           \<forall>s. y = x @ s \<longrightarrow> s = []"
    and "\<forall>l\<in>insert language' (snd ` set calls).
           \<forall>member\<in>set Object_prototype_members. \<forall>s. member \<noteq> l @ s"
  shows "read_dictionary (addWord_sequence calls (new_SymSpell m md)) language' = Undefined \<and>
         lookup (addWord_sequence calls (new_SymSpell m md)) [] language = Some []"
proof -
  have "keys_within (snd ` set calls) (new_SymSpell m md)"
    by (simp add: keys_within_def new_SymSpell_def)
  then have kw: "keys_within (snd ` set calls) (addWord_sequence calls (new_SymSpell m md))"
    using assms(1) by (intro keys_within_addWord_sequence) auto
  have none: "dictionary (addWord_sequence calls (new_SymSpell m md)) language' = None"
  proof (rule ccontr)
    assume "dictionary (addWord_sequence calls (new_SymSpell m md)) language' \<noteq> None"
    then have "language' \<in> dom (dictionary (addWord_sequence calls (new_SymSpell m md)))" by auto
    then obtain l s where "l \<in> snd ` set calls" "s \<noteq> []" "language' = l @ s"
      using kw unfolding keys_within_def by blast
    then show False using assms(3) by blast
  qed
  have "\<forall>member\<in>set Object_prototype_members. \<forall>s. member \<noteq> language' @ s"
    using assms(4) by blast
  then have "read_dictionary (addWord_sequence calls (new_SymSpell m md)) (language' @ []) = Undefined"
    by (subst read_dictionary_own) (simp_all add: none)
  moreover have "lookup (addWord_sequence calls (new_SymSpell m md)) [] language = Some []"
    using assms(2) none by (rule lookup_empty_absent)
  ultimately show ?thesis by simp
qed

subsection \<open>The stored lists in the modes TOP and SMALLEST\<close>

lemma addOrTerminateEarly_Nil: "addOrTerminateEarly [] s mode' = [s]"
  by (simp add: addOrTerminateEarly_def)

lemma addOrTerminateEarly_closer:
  "mode' \<noteq> Modes_ALL \<Longrightarrow> distance x > distance s \<Longrightarrow> addOrTerminateEarly (x # xs) s mode' = [s]"
  by (simp add: addOrTerminateEarly_def)

lemma addOrTerminateEarly_equal:
  "mode' \<noteq> Modes_ALL \<Longrightarrow> distance x = distance s \<Longrightarrow>
   addOrTerminateEarly (x # xs) s mode' = (x # xs) @ [s]"
  by (simp add: addOrTerminateEarly_def)

lemma addOrTerminateEarly_farther:
  "mode' \<noteq> Modes_ALL \<Longrightarrow> distance x < distance s \<Longrightarrow> addOrTerminateEarly (x # xs) s mode' = x # xs"
  by (simp add: addOrTerminateEarly_def)

lemma uniform_Nil: "uniform []"
  by (simp add: uniform_def)

lemma uniform_single: "uniform [s]"
  by (simp add: uniform_def)

lemma uniform_snoc:
  "uniform (x # xs) \<Longrightarrow> distance x = distance s \<Longrightarrow> uniform ((x # xs) @ [s])"
  by (simp add: uniform_def)

lemma addOrTerminateEarly_uniform:
  assumes "mode' \<noteq> Modes_ALL" and "uniform xs"
  shows "uniform (addOrTerminateEarly xs s mode')"
proof (cases xs)
  case Nil
  then show ?thesis by (simp add: addOrTerminateEarly_Nil uniform_single)
next
  case (Cons x xs')
  consider "distance x > distance s" | "distance x = distance s" | "distance x < distance s"
    by linarith
  then show ?thesis
  proof cases
    case 1
    show ?thesis
      unfolding Cons addOrTerminateEarly_closer[OF assms(1) 1] by (rule uniform_single)
  next
    case 2
    show ?thesis
      unfolding Cons addOrTerminateEarly_equal[OF assms(1) 2]
      using assms(2) 2 unfolding Cons by (rule uniform_snoc)
  next
    case 3
    show ?thesis
      using assms(2) unfolding Cons addOrTerminateEarly_farther[OF assms(1) 3] .
  qed
qed

lemma entries_uniform_addWord_suggestion:
  assumes "mode this \<noteq> Modes_ALL" and "entries_uniform this"
  shows "entries_uniform (addWord_suggestion word language ps this)"
  unfolding entries_uniform_def
proof (intro allI impI)
  fix k e
  assume e: "dictionary (addWord_suggestion word language ps this) k = Some e"
  show "uniform (suggestions e)"
  proof (cases "k = language @ term ps")
    case False
    then have "dictionary this k = Some e" using e by (simp add: addWord_suggestion_entry)
    then show ?thesis using assms(2) unfolding entries_uniform_def by blast
  next
    case True
    show ?thesis
    proof (cases "dictionary this k")
      case None
      then have "e = new_DictionaryItem\<lparr>suggestions := [\<lparr>term = word, distance = distance ps\<rparr>]\<rparr>"
        using e True by (simp add: addWord_suggestion_entry)
      then show ?thesis by (simp add: uniform_single)
    next
      case (Some entry)
      then have u: "uniform (suggestions entry)"
        using assms(2) unfolding entries_uniform_def by blast
      have "e = entry \<or> e = entry\<lparr>suggestions := addOrTerminateEarly (suggestions entry)
                                \<lparr>term = word, distance = distance ps\<rparr> (mode this)\<rparr>"
        using e True Some by (simp add: addWord_suggestion_entry split: if_splits)
      then show ?thesis
        using u addOrTerminateEarly_uniform[OF assms(1) u] by auto
    qed
  qed
qed

lemma entries_uniform_fold:
  assumes "mode this \<noteq> Modes_ALL" and "entries_uniform this"
  shows "entries_uniform (fold (addWord_suggestion word language) pss this)"
  using assms
proof (induction pss arbitrary: this)
  case Nil
  then show ?case by simp
next
  case (Cons ps pss)
  have "entries_uniform (addWord_suggestion word language ps this)"
    using Cons.prems by (rule entries_uniform_addWord_suggestion)
  moreover have "mode (addWord_suggestion word language ps this) \<noteq> Modes_ALL"
    using Cons.prems by simp
  ultimately show ?case using Cons.IH by simp
qed

lemma entries_uniform_increment_count:
  "entries_uniform this \<Longrightarrow> entries_uniform (increment_count key this)"
  unfolding entries_uniform_def by (auto simp: increment_count_entry split: if_splits)

lemma entries_uniform_addWord:
  assumes "mode this \<noteq> Modes_ALL" and "entries_uniform this"
  shows "entries_uniform (addWord this word language)"
proof (cases "dictionary this (language @ word)")
  case (Some item)
  then show ?thesis using assms by (simp add: addWord_def entries_uniform_increment_count)
next
  case None
  let ?this1 = "this\<lparr>dictionary := (dictionary this)(language @ word \<mapsto> new_DictionaryItem\<lparr>term := word\<rparr>)\<rparr>"
  have "uniform (suggestions (new_DictionaryItem\<lparr>term := word\<rparr>))"
    by (simp add: new_DictionaryItem_def uniform_Nil)
  then have "entries_uniform ?this1"
    using assms(2) unfolding entries_uniform_def by (simp del: fun_upd_apply add: fun_upd_def)
  moreover have "mode ?this1 \<noteq> Modes_ALL" using assms(1) by simp
  ultimately have "entries_uniform (fold (addWord_suggestion word language)
        (computePermutations word 0 (Some (maxEditDistance ?this1))) ?this1)"
    by (intro entries_uniform_fold)
  then show ?thesis
    using None by (simp add: addWord_def Let_def entries_uniform_increment_count)
qed

lemma entries_uniform_addWord_sequence:
  assumes "mode this \<noteq> Modes_ALL" and "entries_uniform this"
  shows "entries_uniform (addWord_sequence calls this)"
  using assms
proof (induction calls arbitrary: this)
  case Nil
  then show ?case by (simp add: addWord_sequence_def)
next
  case (Cons c calls)
  obtain word language where c: "c = (word, language)" by (cases c)
  have "entries_uniform (addWord this word language)"
    using Cons.prems by (intro entries_uniform_addWord)
  then show ?case using Cons c by (simp add: addWord_sequence_Cons)
qed

lemma uniform_sorted:
  assumes "uniform xs"
  shows "sorted (map distance xs) \<and> (\<forall>s\<in>set xs. distance (hd xs) \<le> distance s)"
proof -
  have "sorted (map distance xs)"
    using assms
  proof (induction xs)
    case Nil
    show ?case by simp
  next
    case (Cons x xs)
    have all: "\<forall>y\<in>set xs. distance y = distance x"
      using Cons.prems by (simp add: uniform_def)
    then have "uniform xs"
      unfolding uniform_def by (cases xs) simp_all
    moreover have "\<forall>y\<in>set xs. distance x \<le> distance y"
      using all by simp
    ultimately show ?case using Cons.IH by simp
  qed
  moreover have "\<forall>s\<in>set xs. distance (hd xs) \<le> distance s"
    using assms by (simp add: uniform_def)
  ultimately show ?thesis by simp
qed

text \<open>
  C8. In the modes TOP and SMALLEST, after every sequence of \<^verbatim>\<open>addWord\<close> calls on a new
  engine, every list of suggestions stored in the dictionary is sorted by non-decreasing
  distance, and its first element has the least distance of the list.
\<close>

theorem nearbyTerms_sorted:
  assumes "md \<noteq> Modes_ALL"
    and "dictionary (addWord_sequence calls (new_SymSpell m (Some md))) k = Some e"
  shows "sorted (map distance (suggestions e)) \<and>
         (\<forall>s\<in>set (suggestions e). distance (hd (suggestions e)) \<le> distance s)"
proof -
  have "entries_uniform (new_SymSpell m (Some md))"
    by (simp add: entries_uniform_def new_SymSpell_def)
  moreover have "mode (new_SymSpell m (Some md)) \<noteq> Modes_ALL"
    using assms(1) by (simp add: new_SymSpell_def)
  ultimately have "entries_uniform (addWord_sequence calls (new_SymSpell m (Some md)))"
    by (intro entries_uniform_addWord_sequence)
  then have "uniform (suggestions e)"
    using assms(2) unfolding entries_uniform_def by blast
  then show ?thesis by (rule uniform_sorted)
qed

lemma dictionary_ab_ac:
  "dictionary (addWord_sequence [(''ab'', ''en''), (''ac'', ''en'')] (new_SymSpell None (Some Modes_TOP)))
     ''ena''
   = Some \<lparr>term = [], suggestions = [\<lparr>term = ''ab'', distance = 1\<rparr>, \<lparr>term = ''ac'', distance = 1\<rparr>],
           count = 0\<rparr>"
  by code_simp

theorem nearbyTerms_sorted_witness:
  "Modes_TOP \<noteq> Modes_ALL \<and>
   dictionary (addWord_sequence [(''ab'', ''en''), (''ac'', ''en'')] (new_SymSpell None (Some Modes_TOP)))
     ''ena''
   = Some \<lparr>term = [], suggestions = [\<lparr>term = ''ab'', distance = 1\<rparr>, \<lparr>term = ''ac'', distance = 1\<rparr>],
           count = 0\<rparr> \<and>
   sorted (map distance [\<lparr>term = ''ab'', distance = 1\<rparr>, \<lparr>term = ''ac'', distance = 1\<rparr>]) \<and>
   distance (hd [\<lparr>term = ''ab'', distance = 1\<rparr>, \<lparr>term = ''ac'', distance = 1\<rparr>])
     \<le> distance \<lparr>term = ''ac'', distance = 1\<rparr>"
  using nearbyTerms_sorted[OF _ dictionary_ab_ac] dictionary_ab_ac
  by simp

subsection \<open>The distance verifier computes a symmetric function\<close>

lemma score_spec_sym: "score_spec a b r c = score_spec b a c r"
proof (induction "r + c" arbitrary: r c rule: less_induct)
  case less
  show ?case
  proof (cases "r = 0 \<or> c = 0 \<or> r = 1 \<or> c = 1")
    case True
    have "score_spec a b r c =
        (if r = 0 \<or> c = 0 then int (length a + length b) else if r = 1 then int (c - 1) else int (r - 1))"
      using True by (subst score_spec.simps) auto
    moreover have "score_spec b a c r =
        (if c = 0 \<or> r = 0 then int (length b + length a) else if c = 1 then int (r - 1) else int (c - 1))"
      using True by (subst score_spec.simps) auto
    ultimately show ?thesis using True by (auto simp: add.commute)
  next
    case False
    then have rc: "2 \<le> r" "2 \<le> c" by auto
    let ?k = "last_row a (b ! (c - 2)) (r - 2)"
    let ?l = "last_row b (a ! (r - 2)) (c - 2)"
    have kl: "?k \<le> r - 2" "?l \<le> c - 2" by (rule last_row_le)+
    have 1: "score_spec a b (r - 1) (c - 1) = score_spec b a (c - 1) (r - 1)"
      using rc by (intro less) auto
    have 2: "score_spec a b r (c - 1) = score_spec b a (c - 1) r"
      using rc by (intro less) auto
    have 3: "score_spec a b (r - 1) c = score_spec b a c (r - 1)"
      using rc by (intro less) auto
    have 4: "score_spec a b ?k ?l = score_spec b a ?l ?k"
      using rc kl by (intro less) linarith
    from False have nz: "\<not> (r = 0 \<or> c = 0)" "r \<noteq> 1" "c \<noteq> 1" by auto
    define X where "X = score_spec b a (c - 1) (r - 1)"
    define Y where "Y = score_spec b a (c - 1) r"
    define Z where "Z = score_spec b a c (r - 1)"
    define W where "W = score_spec b a ?l ?k"
    have "score_spec a b r c =
        min (if a ! (r - 2) = b ! (c - 2) then score_spec a b (r - 1) (c - 1)
             else min (score_spec a b (r - 1) (c - 1))
                    (min (score_spec a b r (c - 1)) (score_spec a b (r - 1) c)) + 1)
            (score_spec a b ?k ?l + (int (r - 1) - int ?k - 1) + 1 + (int (c - 1) - int ?l - 1))"
      by (subst score_spec.simps) (simp only: nz if_False)
    then have L: "score_spec a b r c =
        min (if a ! (r - 2) = b ! (c - 2) then X else min X (min Y Z) + 1)
            (W + (int (r - 1) - int ?k - 1) + 1 + (int (c - 1) - int ?l - 1))"
      unfolding 1 2 3 4 X_def Y_def Z_def W_def .
    have R: "score_spec b a c r =
        min (if b ! (c - 2) = a ! (r - 2) then X else min X (min Z Y) + 1)
            (W + (int (c - 1) - int ?l - 1) + 1 + (int (r - 1) - int ?k - 1))"
      unfolding X_def Y_def Z_def W_def
      by (subst score_spec.simps) (simp only: nz if_False disj_commute[of "c = 0"])
    have "min Y Z = min Z Y" by (rule min.commute)
    moreover have "(a ! (r - 2) = b ! (c - 2)) = (b ! (c - 2) = a ! (r - 2))" by (rule eq_commute)
    moreover have "W + (int (r - 1) - int ?k - 1) + 1 + (int (c - 1) - int ?l - 1)
        = W + (int (c - 1) - int ?l - 1) + 1 + (int (r - 1) - int ?k - 1)" by linarith
    ultimately show ?thesis unfolding L R by (simp only:)
  qed
qed


lemma score_spec_border:
  "r = 0 \<or> c = 0 \<Longrightarrow> score_spec a b r c = int (length a + length b)"
  "0 < c \<Longrightarrow> score_spec a b (Suc 0) c = int (c - 1)"
  "0 < r \<Longrightarrow> score_spec a b r (Suc 0) = int (r - 1)"
  by (subst score_spec.simps; auto)+

lemma score_spec_inner:
  assumes "1 \<le> i" and "1 \<le> j"
  shows "score_spec a b (i + 1) (j + 1) =
     min (if a ! (i - 1) = b ! (j - 1) then score_spec a b i j
          else min (score_spec a b i j) (min (score_spec a b (i + 1) j) (score_spec a b i (j + 1))) + 1)
         (score_spec a b (last_row a (b ! (j - 1)) (i - 1)) (last_row b (a ! (i - 1)) (j - 1))
            + (int i - int (last_row a (b ! (j - 1)) (i - 1)) - 1) + 1
            + (int j - int (last_row b (a ! (i - 1)) (j - 1)) - 1))"
proof -
  have nz: "\<not> (i + 1 = 0 \<or> j + 1 = 0)" "i + 1 \<noteq> 1" "j + 1 \<noteq> 1"
    using assms by auto
  have arith: "i + 1 - 2 = i - 1" "j + 1 - 2 = j - 1" "i + 1 - 1 = i" "j + 1 - 1 = j"
    using assms by auto
  show ?thesis
    by (subst score_spec.simps) (simp only: nz if_False arith)
qed

lemma fold_upt_invariant:
  assumes "lo \<le> hi" and "P lo s"
    and "\<And>i s. lo \<le> i \<Longrightarrow> i < hi \<Longrightarrow> P i s \<Longrightarrow> P (Suc i) (f i s)"
  shows "P hi (fold f [lo..<hi] s)"
proof -
  have "n \<le> hi \<Longrightarrow> P n (fold f [lo..<n] s)" if "lo \<le> n" for n
    using that
  proof (induction n rule: dec_induct)
    case base
    show ?case using assms(2) by simp
  next
    case (step n)
    then have "P n (fold f [lo..<n] s)" by simp
    then have "P (Suc n) (f n (fold f [lo..<n] s))"
      using step by (intro assms(3)) auto
    then show ?case using step by simp
  qed
  then show ?thesis using assms(1) by simp
qed

lemma distance_cell_eq:
  assumes "sd (b ! (j - 1)) = Some k" and "k < length a + 2" and "k \<le> i"
  shows "distance_cell a b sd i j (score, DB) =
      (score((i + 1, j + 1) :=
         min (if a ! (i - 1) = b ! (j - 1) then score (i, j)
              else min (score (i, j)) (min (score (i + 1, j)) (score (i, j + 1))) + 1)
             (score (k, DB) + (int i - int k - 1) + 1 + (int j - int DB - 1))),
       if a ! (i - 1) = b ! (j - 1) then j else DB)"
  using assms by (auto simp: distance_cell_def set_cell_def Let_def)

lemma distance_cell_step:
  assumes i: "1 \<le> i" "i \<le> length a" and j: "1 \<le> j" "j \<le> length b"
    and tab: "table_upto a b i (j - 1) score"
    and DB: "DB = last_row b (a ! (i - 1)) (j - 1)"
    and sd: "sd_upto a b (i - 1) sd"
  shows "table_upto a b i j (fst (distance_cell a b sd i j (score, DB)))
       \<and> snd (distance_cell a b sd i j (score, DB)) = last_row b (a ! (i - 1)) j"
proof -
  let ?k = "last_row a (b ! (j - 1)) (i - 1)"
  have kle: "?k \<le> i - 1" by (rule last_row_le)
  have dle: "DB \<le> j - 1" unfolding DB by (rule last_row_le)
  have bj: "b ! (j - 1) \<in> set b" using j by simp
  have i1: "sd (b ! (j - 1)) = Some ?k"
    using sd bj unfolding sd_upto_def by simp
  have klt: "?k < length a + 2" using kle i by linarith
  have rd: "score (r, c) = score_spec a b r c"
    if "r \<le> length a + 1" "c \<le> length b + 1" "r \<le> i \<or> c \<le> 1 \<or> (r = i + 1 \<and> c \<le> j)" for r c
    using tab that j unfolding table_upto_def by auto
  have r1: "score (i, j) = score_spec a b i j" using i j by (intro rd) auto
  have r2: "score (i + 1, j) = score_spec a b (i + 1) j" using i j by (intro rd) auto
  have r3: "score (i, j + 1) = score_spec a b i (j + 1)" using i j by (intro rd) auto
  have r4: "score (?k, DB) = score_spec a b ?k DB"
    using i j kle dle by (intro rd) auto
  define V where "V = score_spec a b (i + 1) (j + 1)"
  have V: "V = min (if a ! (i - 1) = b ! (j - 1) then score (i, j)
                    else min (score (i, j)) (min (score (i + 1, j)) (score (i, j + 1))) + 1)
                   (score (?k, DB) + (int i - int ?k - 1) + 1 + (int j - int DB - 1))"
    unfolding V_def r1 r2 r3 r4 unfolding DB
    using i(1) j(1) by (rule score_spec_inner)
  have res: "distance_cell a b sd i j (score, DB) =
      (score((i + 1, j + 1) := V), if a ! (i - 1) = b ! (j - 1) then j else DB)"
    unfolding V using i1 klt kle by (intro distance_cell_eq) auto
  have "table_upto a b i j (score((i + 1, j + 1) := V))"
    unfolding table_upto_def
  proof (intro allI impI)
    fix r c
    assume rc: "r \<le> length a + 1" "c \<le> length b + 1" "r \<le> i \<or> c \<le> 1 \<or> r = i + 1 \<and> c \<le> j + 1"
    show "(score((i + 1, j + 1) := V)) (r, c) = score_spec a b r c"
    proof (cases "(r, c) = (i + 1, j + 1)")
      case True
      then show ?thesis by (simp add: V_def)
    next
      case False
      then have "r \<le> i \<or> c \<le> 1 \<or> (r = i + 1 \<and> c \<le> j)" using rc(3) by auto
      then have "score (r, c) = score_spec a b r c" using rc by (intro rd)
      moreover have "(score((i + 1, j + 1) := V)) (r, c) = score (r, c)"
        using False by (intro fun_upd_other)
      ultimately show ?thesis by simp
    qed
  qed
  moreover have "(if a ! (i - 1) = b ! (j - 1) then j else DB) = last_row b (a ! (i - 1)) j"
  proof -
    obtain j' where j': "j = Suc j'" using j(1) by (cases j) auto
    show ?thesis unfolding DB j' by auto
  qed
  ultimately show ?thesis by (simp add: res)
qed


lemma distance_row_step:
  assumes i: "1 \<le> i" "i \<le> length a"
    and tab: "table_upto a b i 0 score"
    and sd: "sd_upto a b (i - 1) sd"
  shows "table_upto a b (i + 1) 0 (fst (distance_row a b i (score, sd)))
       \<and> sd_upto a b i (snd (distance_row a b i (score, sd)))"
proof -
  define P where "P = (\<lambda>j (st :: score_table \<times> nat).
     table_upto a b i (j - 1) (fst st) \<and> snd st = last_row b (a ! (i - 1)) (j - 1))"
  define st where "st = fold (distance_cell a b sd i) [1..<length b + 1] (score, 0)"
  have "P (length b + 1) st"
    unfolding st_def
  proof (rule fold_upt_invariant)
    show "1 \<le> length b + 1" by simp
    show "P 1 (score, 0)" using tab by (simp add: P_def)
  next
    fix j and s :: "score_table \<times> nat"
    assume j: "1 \<le> j" "j < length b + 1" and Pj: "P j s"
    obtain sc DB where s: "s = (sc, DB)" by (cases s)
    have "table_upto a b i j (fst (distance_cell a b sd i j (sc, DB)))
       \<and> snd (distance_cell a b sd i j (sc, DB)) = last_row b (a ! (i - 1)) j"
      using i j Pj sd unfolding P_def s by (intro distance_cell_step) auto
    then show "P (Suc j) (distance_cell a b sd i j s)"
      by (simp add: P_def s)
  qed
  then have full: "table_upto a b i (length b) (fst st)"
    by (simp add: P_def)
  have "table_upto a b (i + 1) 0 (fst st)"
    unfolding table_upto_def
  proof (intro allI impI)
    fix r c
    assume rc: "r \<le> length a + 1" "c \<le> length b + 1" "r \<le> i + 1 \<or> c \<le> 1 \<or> r = i + 1 + 1 \<and> c \<le> 0 + 1"
    then have "r \<le> i \<or> c \<le> 1 \<or> (r = i + 1 \<and> c \<le> length b + 1)" by auto
    then show "fst st (r, c) = score_spec a b r c"
      using full rc unfolding table_upto_def by blast
  qed
  moreover have "sd_upto a b i (sd(a ! (i - 1) \<mapsto> i))"
  proof -
    obtain i' where i': "i = Suc i'" using i(1) by (cases i) auto
    have "a ! i' \<in> set a" using i i' by simp
    then show ?thesis
      using sd unfolding sd_upto_def i' by auto
  qed
  moreover have "distance_row a b i (score, sd) = (fst st, sd(a ! (i - 1) \<mapsto> i))"
    by (simp add: distance_row_def st_def split: prod.splits)
  ultimately show ?thesis by simp
qed

lemma distance_init_rows_result:
  "(\<forall>r c. fst (distance_init_rows a v (score, sd)) (r, c) =
      (if 1 \<le> r \<and> r \<le> length a + 1 \<and> c = 0 then v
       else if 1 \<le> r \<and> r \<le> length a + 1 \<and> c = 1 then int (r - 1)
       else score (r, c)))
   \<and> (\<forall>ch. snd (distance_init_rows a v (score, sd)) ch = (if ch \<in> set a then Some 0 else sd ch))"
proof -
  define P where "P = (\<lambda>i (st :: score_table \<times> (char \<rightharpoonup> nat)).
     (\<forall>r c. fst st (r, c) =
        (if 1 \<le> r \<and> r \<le> i \<and> c = 0 then v
         else if 1 \<le> r \<and> r \<le> i \<and> c = 1 then int (r - 1)
         else score (r, c)))
     \<and> (\<forall>ch. snd st ch = (if ch \<in> set (take i a) then Some 0 else sd ch)))"
  have "P (length a + 1) (distance_init_rows a v (score, sd))"
    unfolding distance_init_rows_def
  proof (rule fold_upt_invariant)
    show "0 \<le> length a + 1" by simp
    show "P 0 (score, sd)" by (simp add: P_def)
  next
    fix i and s :: "score_table \<times> (char \<rightharpoonup> nat)"
    assume i: "0 \<le> i" "i < length a + 1" and Pi: "P i s"
    obtain sc sd' where s: "s = (sc, sd')" by (cases s)
    have tk: "i < length a \<Longrightarrow> set (take (Suc i) a) = insert (a ! i) (set (take i a))"
      by (simp add: take_Suc_conv_app_nth)
    have tk': "\<not> i < length a \<Longrightarrow> take (Suc i) a = take i a"
      by simp
    show "P (Suc i) ((case s of (score, sd) \<Rightarrow>
              let score = set_cell score (i + 1) 1 (int i);
                  score = set_cell score (i + 1) 0 v
              in (score, if i < length a then sd(a ! i \<mapsto> 0) else sd)))"
      using Pi tk tk' unfolding P_def s
      by (auto simp: set_cell_def Let_def)
  qed
  then show ?thesis by (simp add: P_def)
qed

lemma distance_init_cols_result:
  "(\<forall>r c. fst (distance_init_cols b v (score, sd)) (r, c) =
      (if r = 1 \<and> 1 \<le> c \<and> c \<le> length b + 1 then int (c - 1)
       else if r = 0 \<and> 1 \<le> c \<and> c \<le> length b + 1 then v
       else score (r, c)))
   \<and> (\<forall>ch. snd (distance_init_cols b v (score, sd)) ch = (if ch \<in> set b then Some 0 else sd ch))"
proof -
  define P where "P = (\<lambda>j (st :: score_table \<times> (char \<rightharpoonup> nat)).
     (\<forall>r c. fst st (r, c) =
        (if r = 1 \<and> 1 \<le> c \<and> c \<le> j then int (c - 1)
         else if r = 0 \<and> 1 \<le> c \<and> c \<le> j then v
         else score (r, c)))
     \<and> (\<forall>ch. snd st ch = (if ch \<in> set (take j b) then Some 0 else sd ch)))"
  have "P (length b + 1) (distance_init_cols b v (score, sd))"
    unfolding distance_init_cols_def
  proof (rule fold_upt_invariant)
    show "0 \<le> length b + 1" by simp
    show "P 0 (score, sd)" by (simp add: P_def)
  next
    fix j and s :: "score_table \<times> (char \<rightharpoonup> nat)"
    assume j: "0 \<le> j" "j < length b + 1" and Pj: "P j s"
    obtain sc sd' where s: "s = (sc, sd')" by (cases s)
    have tk: "j < length b \<Longrightarrow> set (take (Suc j) b) = insert (b ! j) (set (take j b))"
      by (simp add: take_Suc_conv_app_nth)
    have tk': "\<not> j < length b \<Longrightarrow> take (Suc j) b = take j b"
      by simp
    show "P (Suc j) ((case s of (score, sd) \<Rightarrow>
              let score = set_cell score 1 (j + 1) (int j);
                  score = set_cell score 0 (j + 1) v
              in (score, if j < length b then sd(b ! j \<mapsto> 0) else sd)))"
      using Pj tk tk' unfolding P_def s
      by (auto simp: set_cell_def Let_def)
  qed
  then show ?thesis by (simp add: P_def)
qed


lemma distance_init_state:
  fixes a b :: string and score0 :: score_table
  defines "v \<equiv> int (length a + length b)"
  defines "st \<equiv> distance_init_cols b v (distance_init_rows a v (set_cell score0 0 0 v, Map.empty))"
  shows "table_upto a b 1 0 (fst st) \<and> sd_upto a b 0 (snd st)"
proof -
  define st1 where "st1 = distance_init_rows a v (set_cell score0 0 0 v, Map.empty)"
  have st: "st = distance_init_cols b v (fst st1, snd st1)"
    by (simp add: st_def st1_def)
  have rows: "fst st1 (r, c) =
      (if 1 \<le> r \<and> r \<le> length a + 1 \<and> c = 0 then v
       else if 1 \<le> r \<and> r \<le> length a + 1 \<and> c = 1 then int (r - 1)
       else (set_cell score0 0 0 v) (r, c))" for r c
    unfolding st1_def using distance_init_rows_result[of a v "set_cell score0 0 0 v" Map.empty] by blast
  have rows_sd: "snd st1 ch = (if ch \<in> set a then Some 0 else None)" for ch
    unfolding st1_def using distance_init_rows_result[of a v "set_cell score0 0 0 v" Map.empty] by simp
  have cols: "fst st (r, c) =
      (if r = 1 \<and> 1 \<le> c \<and> c \<le> length b + 1 then int (c - 1)
       else if r = 0 \<and> 1 \<le> c \<and> c \<le> length b + 1 then v
       else fst st1 (r, c))" for r c
    unfolding st using distance_init_cols_result[of b v "fst st1" "snd st1"] by blast
  have cols_sd: "snd st ch = (if ch \<in> set b then Some 0 else snd st1 ch)" for ch
    unfolding st using distance_init_cols_result[of b v "fst st1" "snd st1"] by simp
  have "table_upto a b 1 0 (fst st)"
    unfolding table_upto_def
  proof (intro allI impI)
    fix r c
    assume rc: "r \<le> length a + 1" "c \<le> length b + 1" "r \<le> 1 \<or> c \<le> 1 \<or> r = 1 + 1 \<and> c \<le> 0 + 1"
    then consider "r = 0" | "r = 1 \<and> c = 0" | "r = 1 \<and> 1 \<le> c" | "2 \<le> r \<and> c = 0" | "2 \<le> r \<and> c = 1"
      by atomize_elim arith
    then show "fst st (r, c) = score_spec a b r c"
    proof cases
      case 1
      then show ?thesis using rc by (simp add: cols rows score_spec_border set_cell_def v_def)
    next
      case 2
      then show ?thesis using rc by (simp add: cols rows score_spec_border v_def)
    next
      case 3
      then show ?thesis using rc by (simp add: cols score_spec_border)
    next
      case 4
      then show ?thesis using rc by (simp add: cols rows score_spec_border v_def)
    next
      case 5
      then show ?thesis using rc by (simp add: cols rows score_spec_border)
    qed
  qed
  moreover have "sd_upto a b 0 (snd st)"
    unfolding sd_upto_def by (auto simp: cols_sd rows_sd)
  ultimately show ?thesis by simp
qed

lemma distance_table_spec:
  "distance_table score0 a b (length a + 1, length b + 1) =
     score_spec a b (length a + 1) (length b + 1)"
proof -
  define v where "v = int (length a + length b)"
  define st where "st = distance_init_cols b v (distance_init_rows a v (set_cell score0 0 0 v, Map.empty))"
  define P where "P = (\<lambda>i (s :: score_table \<times> (char \<rightharpoonup> nat)).
     table_upto a b i 0 (fst s) \<and> sd_upto a b (i - 1) (snd s))"
  have "P (length a + 1) (fold (distance_row a b) [1..<length a + 1] st)"
  proof (rule fold_upt_invariant)
    show "1 \<le> length a + 1" by simp
    show "P 1 st" using distance_init_state[of a b score0] by (simp add: P_def st_def v_def)
  next
    fix i and s :: "score_table \<times> (char \<rightharpoonup> nat)"
    assume i: "1 \<le> i" "i < length a + 1" and Pi: "P i s"
    obtain sc sd where s: "s = (sc, sd)" by (cases s)
    have "table_upto a b (i + 1) 0 (fst (distance_row a b i (sc, sd)))
       \<and> sd_upto a b i (snd (distance_row a b i (sc, sd)))"
      using i Pi unfolding P_def s by (intro distance_row_step) auto
    then show "P (Suc i) (distance_row a b i s)"
      by (simp add: P_def s)
  qed
  then have "table_upto a b (length a + 1) 0 (fst (fold (distance_row a b) [1..<length a + 1] st))"
    by (simp add: P_def)
  then have "fst (fold (distance_row a b) [1..<length a + 1] st) (length a + 1, length b + 1) =
      score_spec a b (length a + 1) (length b + 1)"
    unfolding table_upto_def by simp
  moreover have "distance_table score0 a b = fst (fold (distance_row a b) [1..<length a + 1] st)"
    by (simp add: distance_table_def st_def v_def Let_def split: prod.splits)
  ultimately show ?thesis by simp
qed

lemma distance_table_initial:
  "distance_table score0 a b (length a + 1, length b + 1) =
   distance_table score1 a b (length a + 1, length b + 1)"
  by (simp only: distance_table_spec)

lemma distance_fun_spec:
  "distance_fun a b =
     (if a = [] then int (length b) else if b = [] then int (length a)
      else score_spec a b (length a + 1) (length b + 1))"
  unfolding distance_fun_def distance_table_spec by auto

text \<open>
  C5. For all strings \<open>a\<close> and \<open>b\<close>, \<^verbatim>\<open>distance(a, b)\<close> equals \<^verbatim>\<open>distance(b, a)\<close>.
\<close>

theorem distance_symmetric: "distance_fun a b = distance_fun b a"
  by (simp add: distance_fun_spec score_spec_sym[of a b])

subsection \<open>The engine at concrete inputs\<close>

lemmas distance_eval = distance_fun_def distance_table_def distance_init_rows_def
  distance_init_cols_def distance_row_def distance_cell_def set_cell_def upt_rec

lemmas engine_eval = lookup_def lookup_step_def lookup_enqueue_def lookup_suggestion_def
  lookup_sort_def global_this_mode_def Array_sort_def compare_suggestions_def
  realEditDistance_def addWord_def addWord_suggestion_def increment_count_def
  addOrTerminateEarly_def new_SymSpell_def new_DictionaryItem_def computePermutations_def
  push_if_absent_def equals_def upt_rec lookup_loop.simps Let_def

lemma distance_ab_ad: "distance_fun ''ab'' ''ad'' = 1"
  by (simp add: distance_eval)

lemma distance_ac_ad: "distance_fun ''ac'' ''ad'' = 1"
  by (simp add: distance_eval)

lemma distance_in_nn: "distance_fun ''in'' ''nn'' = 1"
  by (simp add: distance_eval)

text \<open>
  C1. The claim: in the mode TOP a non-empty result of \<^verbatim>\<open>lookup\<close> holds exactly one
  suggestion. The truncation is written in \<^verbatim>\<open>sort\<close>, which reads \<^verbatim>\<open>this.mode\<close> of the global
  object, so it never happens: with the words \<open>ab\<close> and \<open>ac\<close> in the dictionary of an
  engine in the mode TOP, \<^verbatim>\<open>lookup("ad", "en")\<close> returns two suggestions.
\<close>

theorem lookup_TOP_two_suggestions:
  "lookup (addWord (addWord (new_SymSpell (Some 2) (Some Modes_TOP)) ''ab'' ''en'') ''ac'' ''en'')
     ''ad'' ''en''
   = Some [\<lparr>term = ''ab'', distance = 1, count = 1\<rparr>, \<lparr>term = ''ac'', distance = 1, count = 1\<rparr>]"
  by (simp add: engine_eval distance_ab_ad distance_ac_ad)

text \<open>
  C3. The claim: when the entry under the key exists without a term, \<^verbatim>\<open>addWord\<close> sets
  the term, makes the count 1 and registers the variants of the word. The code tests
  only whether the entry exists: after \<open>abc\<close>, whose variant \<open>ab\<close> creates the entry,
  adding \<open>ab\<close> increments the count and nothing else. The term of the entry stays
  empty, and the variant \<open>a\<close> of \<open>ab\<close> is not registered (the entry under \<open>a\<close> refers to
  \<open>abc\<close> only).
\<close>

theorem addWord_after_variant:
  "dictionary (addWord (addWord (new_SymSpell (Some 2) None) ''abc'' ''en'') ''ab'' ''en'') ''enab''
     = Some \<lparr>term = [], suggestions = [\<lparr>term = ''abc'', distance = 1\<rparr>], count = 1\<rparr>
   \<and> dictionary (addWord (addWord (new_SymSpell (Some 2) None) ''abc'' ''en'') ''ab'' ''en'') ''ena''
     = Some \<lparr>term = [], suggestions = [\<lparr>term = ''abc'', distance = 2\<rparr>], count = 0\<rparr>"
  by code_simp

text \<open>
  C2. The claim: for every word added verbatim, \<^verbatim>\<open>lookup\<close> of the word in the modes
  SMALLEST and TOP returns a first suggestion with distance 0 and the word as its term.
  After \<open>abc\<close>, whose variant \<open>ab\<close> creates the entry, \<^verbatim>\<open>addWord("ab", "en")\<close> only increments
  the count (the defect of C3), so the entry has no term: \<^verbatim>\<open>lookup("ab", "en")\<close> records
  an item without a term, returns at once because the distance is 0, and \<^verbatim>\<open>sort\<close>
  filters the item out. The result is empty in both modes.
\<close>

theorem lookup_added_after_variant:
  "lookup (addWord (addWord (new_SymSpell (Some 2) (Some Modes_TOP)) ''abc'' ''en'') ''ab'' ''en'')
     ''ab'' ''en'' = Some [] \<and>
   lookup (addWord (addWord (new_SymSpell (Some 2) (Some Modes_SMALLEST)) ''abc'' ''en'') ''ab'' ''en'')
     ''ab'' ''en'' = Some []"
  by code_simp

text \<open>
  C6. The claim: for every maximum edit distance of at least 1, in the default mode,
  after \<^verbatim>\<open>addWord("in", "en")\<close> the result of \<^verbatim>\<open>lookup("nn", "en")\<close> holds \<open>in\<close> with the
  distance 1. With the maximum 1 the result is empty: a stored reference is accepted
  only if its distance is strictly smaller than the maximum (\<^verbatim>\<open>distance < this.maxEditDistance\<close>).
  On the other path of the same loop a word at the distance 1 is returned with the
  maximum 1: the candidate \<open>in\<close> of the input \<open>ina\<close> passes the test
  \<^verbatim>\<open>candidate.distance > this.maxEditDistance\<close> and is recorded.
\<close>

theorem lookup_in_nn_max1:
  "lookup (addWord (new_SymSpell (Some 1) None) ''in'' ''en'') ''nn'' ''en'' = Some [] \<and>
   lookup (addWord (new_SymSpell (Some 1) None) ''in'' ''en'') ''ina'' ''en''
     = Some [\<lparr>term = ''in'', distance = 1, count = 1\<rparr>]"
  by (simp add: engine_eval distance_in_nn)

text \<open>
  With a maximum edit distance of at least 2 the same \<^verbatim>\<open>lookup("nn", "en")\<close> returns the
  suggestion \<open>in\<close> with the distance 1.
\<close>

lemma lookup_in_nn:
  "2 \<le> m \<Longrightarrow>
   lookup (addWord (new_SymSpell (Some m) None) ''in'' ''en'') ''nn'' ''en''
     = Some [\<lparr>term = ''in'', distance = 1, count = 1\<rparr>]"
  by (simp add: engine_eval distance_in_nn)

end
